theory Spec2Isabelle
  imports Complex_Main
begin

section \<open>Data model\<close>

text \<open>
  The script \<^verbatim>\<open>Streamlit_app.py\<close> works on data frames of the table library. A frame
  is an ordered sequence of named columns; a column has a dtype and one cell for every
  row. The model keeps the dtypes the two readers produce and the script distinguishes:
  numeric columns (what \<^verbatim>\<open>select_dtypes(include=['number'])\<close> selects), object columns
  (what \<^verbatim>\<open>select_dtypes(include=['object'])\<close> selects) and datetime columns.

  A number is a value of the float format other than NaN: a finite number or one of the
  two infinities (the reader takes the text \<^verbatim>\<open>inf\<close> for one). Finite numbers are exact
  rationals: rounding is not modelled, overflow to an infinity is. NaN is the missing
  marker of a numeric column.
\<close>

datatype number = NegInf | Fin rat | PosInf

instantiation number :: linorder
begin

definition less_eq_number :: "number \<Rightarrow> number \<Rightarrow> bool" where
  "less_eq_number a b =
     (case a of
        NegInf \<Rightarrow> True
      | Fin x \<Rightarrow> (case b of NegInf \<Rightarrow> False | Fin y \<Rightarrow> x \<le> y | PosInf \<Rightarrow> True)
      | PosInf \<Rightarrow> b = PosInf)"

definition less_number :: "number \<Rightarrow> number \<Rightarrow> bool" where
  "less_number a b = (a \<le> b \<and> \<not> b \<le> a)"

instance
  by standard (auto simp: less_eq_number_def less_number_def split: number.splits)

end

text \<open>
  A cell is the missing marker (NaN, None and NaT are one marker: \<^verbatim>\<open>isna\<close>,
  \<^verbatim>\<open>fillna\<close> and \<^verbatim>\<open>duplicated\<close> do not tell them apart), a number, a text or a
  timestamp (nanoseconds since the epoch).
\<close>

datatype dtype = Numeric | Object | Datetime

datatype cell = Missing | Num number | Str string | Date int

datatype series = Series (dtype: dtype) (cells: "cell list")

type_synonym dataframe = "(string \<times> series) list"

definition columns :: "dataframe \<Rightarrow> string list" where
  "columns df = map fst df"

text \<open>\<^verbatim>\<open>len(df)\<close>: the number of rows, read off the first column.\<close>

definition nrows :: "dataframe \<Rightarrow> nat" where
  "nrows df = (case df of [] \<Rightarrow> 0 | (n, s) # rest \<Rightarrow> length (cells s))"

definition row :: "dataframe \<Rightarrow> nat \<Rightarrow> cell list" where
  "row df i = map (\<lambda>(n, s). cells s ! i) df"

definition rows_of :: "dataframe \<Rightarrow> cell list list" where
  "rows_of df = map (row df) [0..<nrows df]"

text \<open>
  The cells a column of each dtype can hold: a numeric column holds numbers and the
  missing marker, a datetime column timestamps and the missing marker, an object column
  anything.
\<close>

fun cell_fits :: "dtype \<Rightarrow> cell \<Rightarrow> bool" where
  "cell_fits Numeric (Num x) = True"
| "cell_fits Numeric Missing = True"
| "cell_fits Numeric c = False"
| "cell_fits Datetime (Date t) = True"
| "cell_fits Datetime Missing = True"
| "cell_fits Datetime c = False"
| "cell_fits Object c = True"

definition wf_series :: "series \<Rightarrow> bool" where
  "wf_series s = list_all (cell_fits (dtype s)) (cells s)"

text \<open>
  A well-formed frame, as both readers return it: column names are unique (the readers
  rename repeated headers), every column has one cell per row, and the cells of a column
  fit its dtype.
\<close>

definition wf_df :: "dataframe \<Rightarrow> bool" where
  "wf_df df = (distinct (columns df)
     \<and> list_all (\<lambda>(n, s). length (cells s) = nrows df \<and> wf_series s) df)"

section \<open>Cleaning\<close>

text \<open>
  \<^verbatim>\<open>df.drop_duplicates()\<close>: \<^verbatim>\<open>duplicated()\<close> marks every row that equals an earlier
  row, and the rows not marked are kept, in every column, in their order. The result is a
  new frame.
\<close>

fun duplicated_mask :: "'a list \<Rightarrow> 'a list \<Rightarrow> bool list" where
  "duplicated_mask seen [] = []"
| "duplicated_mask seen (r # rs) = (r \<in> set seen) # duplicated_mask (r # seen) rs"

definition duplicated :: "dataframe \<Rightarrow> bool list" where
  "duplicated df = duplicated_mask [] (rows_of df)"

definition drop_marked :: "bool list \<Rightarrow> 'a list \<Rightarrow> 'a list" where
  "drop_marked m xs = map snd (filter (\<lambda>(d, x). \<not> d) (zip m xs))"

definition drop_duplicates :: "dataframe \<Rightarrow> dataframe" where
  "drop_duplicates df =
     (let m = duplicated df
      in map (\<lambda>(n, s). (n, Series (dtype s) (drop_marked m (cells s)))) df)"

text \<open>
  \<^verbatim>\<open>Series.median()\<close> skips missing cells; on no value at all it is NaN, which is the
  missing marker. With an even count it is the mean of the two middle values, computed
  as their sum divided by two: NaN when they are the two infinities, an infinity when
  the sum leaves the range of the float format (\<open>float_overflow\<close> is
  \<open>2 ^ 1024 - 2 ^ 970\<close>, the least sum that rounds to an infinity).
\<close>

definition numbers :: "series \<Rightarrow> number list" where
  "numbers s = concat (map (\<lambda>c. case c of Num x \<Rightarrow> [x] | _ \<Rightarrow> []) (cells s))"

definition float_overflow :: rat where
  "float_overflow =
     179769313486231580793728971405303415079934132710037826936173778980444968292764750946649017977587207096330286416692887910946555547851940402630657488671505820681908902000708383676273854845817711531764475730270069855571366959622842914819860834936475292719074168444365510704342711559699508093042880177904174497792"

fun mean_of_two :: "number \<Rightarrow> number \<Rightarrow> cell" where
  "mean_of_two (Fin a) (Fin b) =
     (if float_overflow \<le> a + b then Num PosInf
      else if a + b \<le> - float_overflow then Num NegInf
      else Num (Fin ((a + b) / 2)))"
| "mean_of_two NegInf PosInf = Missing"
| "mean_of_two PosInf NegInf = Missing"
| "mean_of_two NegInf b = Num NegInf"
| "mean_of_two a NegInf = Num NegInf"
| "mean_of_two PosInf b = Num PosInf"
| "mean_of_two a PosInf = Num PosInf"

definition median_of :: "number list \<Rightarrow> cell" where
  "median_of xs =
     (let ys = sort xs; n = length ys
      in if n = 0 then Missing
         else if odd n then Num (ys ! (n div 2))
         else mean_of_two (ys ! (n div 2 - 1)) (ys ! (n div 2)))"

definition median :: "series \<Rightarrow> cell" where
  "median s = median_of (numbers s)"

text \<open>
  \<^verbatim>\<open>s.fillna(v)\<close> puts \<open>v\<close> in every missing cell. Filling with NaN changes nothing:
  the missing marker is written over itself.
\<close>

definition fillna :: "cell \<Rightarrow> series \<Rightarrow> series" where
  "fillna v s = Series (dtype s) (map (\<lambda>c. if c = Missing then v else c) (cells s))"

text \<open>
  \<^verbatim>\<open>df_clean.select_dtypes(include=[...]).columns\<close>: the names of the columns of a
  dtype, in the frame's order.
\<close>

definition select_dtypes :: "dtype \<Rightarrow> dataframe \<Rightarrow> string list" where
  "select_dtypes t df = map fst (filter (\<lambda>(n, s). dtype s = t) df)"

text \<open>
  The two loops of \<^verbatim>\<open>basic_cleaning\<close>. \<^verbatim>\<open>df_clean[col]\<close> is the column of that name,
  taken out of the frame, and \<^verbatim>\<open>fillna(..., inplace=True)\<close> fills what was taken out.
  What that does to \<^verbatim>\<open>df_clean\<close> depends on the table library, and nothing in the
  repository pins its version: without copy-on-write the column taken out shares its
  cells with the frame and the fill writes through; with copy-on-write (\<open>copy_on_write\<close>,
  the only mode from version 3 on) it behaves as a copy and the frame stays as it is.
\<close>

definition fill_median_inplace :: "bool \<Rightarrow> string \<Rightarrow> dataframe \<Rightarrow> dataframe" where
  "fill_median_inplace copy_on_write col df =
     (if copy_on_write then df
      else map (\<lambda>(n, s). if n = col then (n, fillna (median s) s) else (n, s)) df)"

definition fill_text_inplace :: "bool \<Rightarrow> string \<Rightarrow> dataframe \<Rightarrow> dataframe" where
  "fill_text_inplace copy_on_write col df =
     (if copy_on_write then df
      else map (\<lambda>(n, s). if n = col then (n, fillna (Str ''Missing'') s) else (n, s)) df)"

fun fill_numeric_cols :: "bool \<Rightarrow> string list \<Rightarrow> dataframe \<Rightarrow> dataframe" where
  "fill_numeric_cols copy_on_write [] df = df"
| "fill_numeric_cols copy_on_write (col # cols) df =
     fill_numeric_cols copy_on_write cols (fill_median_inplace copy_on_write col df)"

fun fill_object_cols :: "bool \<Rightarrow> string list \<Rightarrow> dataframe \<Rightarrow> dataframe" where
  "fill_object_cols copy_on_write [] df = df"
| "fill_object_cols copy_on_write (col # cols) df =
     fill_object_cols copy_on_write cols (fill_text_inplace copy_on_write col df)"

definition basic_cleaning :: "bool \<Rightarrow> dataframe \<Rightarrow> dataframe" where
  "basic_cleaning copy_on_write df =
     (let df_clean = drop_duplicates df;
          numeric_cols = select_dtypes Numeric df_clean;
          df_clean = fill_numeric_cols copy_on_write numeric_cols df_clean;
          object_cols = select_dtypes Object df_clean;
          df_clean = fill_object_cols copy_on_write object_cols df_clean
      in df_clean)"

text \<open>
  The fill rule in the words of the specification, column by column: a numeric column
  gets its own median in its missing cells, a text (object) column the placeholder, any
  other column is left alone. It is compared with \<open>basic_cleaning\<close> below.
\<close>

definition cleaned_column :: "series \<Rightarrow> series" where
  "cleaned_column s =
     (case dtype s of
        Numeric \<Rightarrow> fillna (median s) s
      | Object \<Rightarrow> fillna (Str ''Missing'') s
      | Datetime \<Rightarrow> s)"

section \<open>Column selection and numeric conversion\<close>

datatype error = KeyError string | TypeError | DuplicateWidgetID string | ExportError string

text \<open>\<^verbatim>\<open>df[col]\<close> raises KeyError on a name that is no column.\<close>

definition getitem :: "dataframe \<Rightarrow> string \<Rightarrow> error + series" where
  "getitem df col = (case map_of df col of None \<Rightarrow> Inl (KeyError col) | Some s \<Rightarrow> Inr s)"

text \<open>\<^verbatim>\<open>df[[c1, c2, ...]]\<close>: the named columns, in the order of the list.\<close>

fun getitem_list :: "dataframe \<Rightarrow> string list \<Rightarrow> error + dataframe" where
  "getitem_list df [] = Inr []"
| "getitem_list df (col # cols) =
     (case getitem df col of
        Inl e \<Rightarrow> Inl e
      | Inr s \<Rightarrow> (case getitem_list df cols of Inl e \<Rightarrow> Inl e | Inr r \<Rightarrow> Inr ((col, s) # r)))"

text \<open>\<^verbatim>\<open>df[col] = s\<close> replaces the column of that name, or appends a new one.\<close>

definition setitem :: "dataframe \<Rightarrow> string \<Rightarrow> series \<Rightarrow> dataframe" where
  "setitem df col s =
     (if col \<in> set (columns df) then map (\<lambda>(n, t). if n = col then (n, s) else (n, t)) df
      else df @ [(col, s)])"

text \<open>
  Lines 110 to 115: \<^verbatim>\<open>if selected_columns: df = df[selected_columns]\<close>. The widget's
  answer \<open>selected_columns\<close> is an input.
\<close>

definition select_columns :: "string list \<Rightarrow> dataframe \<Rightarrow> error + dataframe" where
  "select_columns selected_columns df =
     (if selected_columns \<noteq> [] then getitem_list df selected_columns else Inr df)"

text \<open>
  \<^verbatim>\<open>pd.to_numeric(s, errors='coerce')\<close>. A column that is numeric already is returned
  as it is; a datetime column is read as its 64-bit integers, where NaT is the least
  of them; every other column is converted cell by cell: a number stays, a text is
  parsed (the parser of the library is the parameter \<open>parse\<close>) and whatever does not
  parse becomes NaN.
\<close>

fun view_int64 :: "cell \<Rightarrow> cell" where
  "view_int64 (Date t) = Num (Fin (of_int t))"
| "view_int64 c = Num (Fin (- (2 ^ 63)))"

fun coerce_numeric :: "(string \<Rightarrow> number option) \<Rightarrow> cell \<Rightarrow> cell" where
  "coerce_numeric parse (Num x) = Num x"
| "coerce_numeric parse (Str t) = (case parse t of None \<Rightarrow> Missing | Some x \<Rightarrow> Num x)"
| "coerce_numeric parse c = Missing"

definition to_numeric :: "(string \<Rightarrow> number option) \<Rightarrow> series \<Rightarrow> series" where
  "to_numeric parse s =
     (case dtype s of
        Numeric \<Rightarrow> s
      | Datetime \<Rightarrow> Series Numeric (map view_int64 (cells s))
      | Object \<Rightarrow> Series Numeric (map (coerce_numeric parse) (cells s)))"

text \<open>
  Lines 118 to 124: the loop \<^verbatim>\<open>for col in columns_for_conversion:
  df[col] = pd.to_numeric(df[col], errors='coerce')\<close>.
\<close>

fun convert_loop :: "(string \<Rightarrow> number option) \<Rightarrow> string list \<Rightarrow> dataframe \<Rightarrow> error + dataframe" where
  "convert_loop parse [] df = Inr df"
| "convert_loop parse (col # cols) df =
     (case getitem df col of
        Inl e \<Rightarrow> Inl e
      | Inr s \<Rightarrow> convert_loop parse cols (setitem df col (to_numeric parse s)))"

definition convert_columns :: "(string \<Rightarrow> number option) \<Rightarrow> string list \<Rightarrow> dataframe \<Rightarrow> error + dataframe" where
  "convert_columns parse columns_for_conversion df =
     (if columns_for_conversion \<noteq> [] then convert_loop parse columns_for_conversion df
      else Inr df)"

text \<open>What the specification asks of a coerced cell: a number or the null marker.\<close>

fun number_or_null :: "cell \<Rightarrow> bool" where
  "number_or_null Missing = True"
| "number_or_null (Num x) = True"
| "number_or_null c = False"

section \<open>Date view\<close>

text \<open>
  \<^verbatim>\<open>pd.to_datetime(s, errors='coerce')\<close>. The parser of the library is the parameter
  \<open>parser\<close>: on a column it raises (\<open>None\<close>), or it settles how the cells of this
  column are read and gives, for a cell, a timestamp or nothing. The result is a datetime
  column with one cell for every cell of \<open>s\<close>: a missing cell stays missing (NaT), a cell
  that does not parse becomes NaT.
\<close>

type_synonym datetime_parser = "series \<Rightarrow> (cell \<Rightarrow> int option) option"

fun coerce_datetime :: "(cell \<Rightarrow> int option) \<Rightarrow> cell \<Rightarrow> cell" where
  "coerce_datetime f Missing = Missing"
| "coerce_datetime f c = (case f c of None \<Rightarrow> Missing | Some t \<Rightarrow> Date t)"

definition to_datetime :: "datetime_parser \<Rightarrow> series \<Rightarrow> error + series" where
  "to_datetime parser s =
     (case parser s of
        None \<Rightarrow> Inl TypeError
      | Some f \<Rightarrow> Inr (Series Datetime (map (coerce_datetime f) (cells s))))"

text \<open>\<^verbatim>\<open>converted.notna().sum()\<close>\<close>

definition notna_sum :: "series \<Rightarrow> nat" where
  "notna_sum s = length (filter (\<lambda>c. c \<noteq> Missing) (cells s))"

text \<open>
  Lines 142 to 150: the detection loop. An exception inside the \<^verbatim>\<open>try\<close> (from
  \<^verbatim>\<open>df[col]\<close> or from the parser) skips the column. The test is
  \<^verbatim>\<open>converted.notna().sum() > len(converted) / 2\<close>, with true division.
\<close>

fun detect_loop :: "datetime_parser \<Rightarrow> dataframe \<Rightarrow> string list \<Rightarrow> string list \<Rightarrow> string list" where
  "detect_loop parser df [] date_columns = date_columns"
| "detect_loop parser df (col # cols) date_columns =
     detect_loop parser df cols
       (case getitem df col of
          Inl e \<Rightarrow> date_columns
        | Inr s \<Rightarrow>
            (case to_datetime parser s of
               Inl e \<Rightarrow> date_columns
             | Inr converted \<Rightarrow>
                 if (of_nat (notna_sum converted) :: rat) > of_nat (length (cells converted)) / 2
                 then date_columns @ [col]
                 else date_columns))"

definition date_columns :: "datetime_parser \<Rightarrow> dataframe \<Rightarrow> string list" where
  "date_columns parser df = detect_loop parser df (columns df) []"

text \<open>
  The two counts the specification speaks of: the values of a column that parse as a
  date, and its non-missing values.
\<close>

definition parsed_count :: "(cell \<Rightarrow> int option) \<Rightarrow> series \<Rightarrow> nat" where
  "parsed_count f s = length (filter (\<lambda>c. c \<noteq> Missing \<and> f c \<noteq> None) (cells s))"

definition non_missing_count :: "series \<Rightarrow> nat" where
  "non_missing_count s = length (filter (\<lambda>c. c \<noteq> Missing) (cells s))"

text \<open>
  What the loop decides for one column name, with the test on natural numbers.
\<close>

definition qualifies :: "datetime_parser \<Rightarrow> dataframe \<Rightarrow> string \<Rightarrow> bool" where
  "qualifies parser df col =
     (case getitem df col of
        Inl e \<Rightarrow> False
      | Inr s \<Rightarrow> (case parser s of
                   None \<Rightarrow> False
                 | Some f \<Rightarrow> 2 * parsed_count f s > length (cells s)))"

text \<open>
  \<^verbatim>\<open>df.groupby(col).size()\<close> on a datetime column: one entry for every timestamp of
  the column, with the number of rows that carry it; rows with NaT are dropped and the
  keys are sorted.
\<close>

definition timestamps :: "series \<Rightarrow> int list" where
  "timestamps s = concat (map (\<lambda>c. case c of Date t \<Rightarrow> [t] | _ \<Rightarrow> []) (cells s))"

definition groupby_size :: "series \<Rightarrow> (int \<times> nat) list" where
  "groupby_size s =
     map (\<lambda>k. (k, count_list (cells s) (Date k))) (sort (remdups (timestamps s)))"

datatype view = LineChart "(int \<times> nat) list" | InfoBox string

text \<open>
  Lines 152 to 160. \<open>selectbox\<close> is the widget: it returns one of the options it is
  given. The working frame is returned with the chart, since the block assigns to it.
\<close>

definition date_visualization ::
    "datetime_parser \<Rightarrow> (string list \<Rightarrow> string) \<Rightarrow> dataframe \<Rightarrow> error + dataframe \<times> view" where
  "date_visualization parser selectbox df =
     (let dcs = date_columns parser df
      in if dcs \<noteq> [] then
           (let selected_date_column = selectbox dcs
            in case getitem df selected_date_column of
                 Inl e \<Rightarrow> Inl e
               | Inr s \<Rightarrow>
                   (case to_datetime parser s of
                      Inl e \<Rightarrow> Inl e
                    | Inr converted \<Rightarrow>
                        (let df' = setitem df selected_date_column converted
                         in case getitem df' selected_date_column of
                              Inl e \<Rightarrow> Inl e
                            | Inr g \<Rightarrow> Inr (df', LineChart (groupby_size g)))))
         else Inr (df, InfoBox ''No suitable date columns found for date visualization.''))"

section \<open>Ingestion\<close>

text \<open>
  \<^verbatim>\<open>os.path.splitext(file.name)[-1].lower()\<close>. The extension starts at the last dot
  of the last path component, unless only dots stand before it there. Lower-casing is
  that of the ASCII letters, which is all the comparison with \<^verbatim>\<open>".csv"\<close> and
  \<^verbatim>\<open>".xlsx"\<close> can see.
\<close>

fun rfind_from :: "char \<Rightarrow> string \<Rightarrow> int \<Rightarrow> int \<Rightarrow> int" where
  "rfind_from c [] i found = found"
| "rfind_from c (x # xs) i found = rfind_from c xs (i + 1) (if x = c then i else found)"

definition rfind :: "char \<Rightarrow> string \<Rightarrow> int" where
  "rfind c p = rfind_from c p 0 (- 1)"

definition splitext :: "string \<Rightarrow> string \<times> string" where
  "splitext p =
     (let sepIndex = rfind (CHR ''/'') p;
          dotIndex = rfind (CHR ''.'') p
      in if dotIndex > sepIndex
            \<and> list_ex (\<lambda>c. c \<noteq> CHR ''.'')
                 (take (nat (dotIndex - (sepIndex + 1))) (drop (nat (sepIndex + 1)) p))
         then (take (nat dotIndex) p, drop (nat dotIndex) p)
         else (p, []))"

definition lower_char :: "char \<Rightarrow> char" where
  "lower_char c =
     (let k = (of_char c :: nat) in if 65 \<le> k \<and> k \<le> 90 then char_of (k + 32) else c)"

definition lower :: "string \<Rightarrow> string" where
  "lower p = map lower_char p"

record uploaded_file =
  name :: string
  content :: string

text \<open>The extension the loop dispatches on.\<close>

definition file_ext :: "uploaded_file \<Rightarrow> string" where
  "file_ext file = lower (snd (splitext (name file)))"

text \<open>What the page shows, in order.\<close>

datatype element =
    Write string
  | Success string
  | Error string
  | Info string
  | Shown dataframe
  | Bar_chart "(string \<times> cell) list"
  | Line_chart "(int \<times> nat) list"

text \<open>
  Lines 65 to 82 for one file. The two readers are parameters: they return a frame, or
  the message of the exception they raise, which the \<^verbatim>\<open>except Exception\<close> catches.
\<close>

type_synonym reader = "string \<Rightarrow> string + dataframe"

definition load_file :: "reader \<Rightarrow> reader \<Rightarrow> uploaded_file \<Rightarrow> element list \<times> dataframe option" where
  "load_file read_csv read_excel file =
     (let file_ext = lower (snd (splitext (name file)));
          page = [Write (''**Processing file:** '' @ name file)]
      in if file_ext = ''.csv'' then
           (case read_csv (content file) of
              Inr df \<Rightarrow> (page @ [Success ''CSV file loaded successfully!''], Some df)
            | Inl e \<Rightarrow> (page @ [Error (''Error reading CSV file: '' @ e)], None))
         else if file_ext = ''.xlsx'' then
           (case read_excel (content file) of
              Inr df \<Rightarrow> (page @ [Success ''Excel file loaded successfully!''], Some df)
            | Inl e \<Rightarrow> (page @ [Error (''Error reading Excel file: '' @ e)], None))
         else (page @ [Error (''Unsupported file type: '' @ file_ext)], None))"

section \<open>The loop over the uploaded files\<close>

text \<open>
  The widgets the loop body creates. None is given a key, so the user interface
  library identifies a widget by its kind and its arguments, and refuses the second
  widget of one identity in a run with an exception. The answer of a widget is the
  user's input: a function of the widget's identity.
\<close>

datatype widget =
    Button string
  | Download_button string string
  | Multiselect string "string list" "string list"
  | Selectbox string "string list"

fun widget_label :: "widget \<Rightarrow> string" where
  "widget_label (Button label) = label"
| "widget_label (Download_button label file_name) = label"
| "widget_label (Multiselect label options preset) = label"
| "widget_label (Selectbox label options) = label"

record inputs =
  st_checkbox :: bool
  st_button :: "string \<Rightarrow> bool"
  st_multiselect :: "string \<Rightarrow> string list \<Rightarrow> string list \<Rightarrow> string list"
  st_selectbox :: "string \<Rightarrow> string list \<Rightarrow> string"

text \<open>
  What the script takes from its libraries: the two readers, the mode of the table
  library, the parsers behind \<^verbatim>\<open>to_numeric\<close> and \<^verbatim>\<open>to_datetime\<close>, the sum of a
  column and the spreadsheet writer (the bytes, or the message of its exception).
\<close>

record library =
  lib_read_csv :: reader
  lib_read_excel :: reader
  lib_copy_on_write :: bool
  lib_parse_number :: "string \<Rightarrow> number option"
  lib_datetime_parser :: datetime_parser
  lib_sum :: "series \<Rightarrow> cell"
  lib_to_excel :: "dataframe \<Rightarrow> string + string"

text \<open>
  The state of a run: what the page shows so far and the widgets created so far. A step
  of the script returns a value or raises, and leaves a state either way; an exception
  ends the run, and the page keeps what was shown before it.
\<close>

record session =
  rendered :: "element list"
  registered :: "widget list"

type_synonym 'a step = "session \<Rightarrow> (error + 'a) \<times> session"

definition ok :: "'a \<Rightarrow> 'a step" where
  "ok x s = (Inr x, s)"

definition raise :: "error \<Rightarrow> 'a step" where
  "raise e s = (Inl e, s)"

definition bind :: "'a step \<Rightarrow> ('a \<Rightarrow> 'b step) \<Rightarrow> 'b step" where
  "bind m k s = (case m s of (Inl e, s') \<Rightarrow> (Inl e, s') | (Inr x, s') \<Rightarrow> k x s')"

definition emit :: "element list \<Rightarrow> unit step" where
  "emit es s = (Inr (), s\<lparr>rendered := rendered s @ es\<rparr>)"

definition register :: "widget \<Rightarrow> unit step" where
  "register w s =
     (if w \<in> set (registered s) then (Inl (DuplicateWidgetID (widget_label w)), s)
      else (Inr (), s\<lparr>registered := registered s @ [w]\<rparr>))"

text \<open>\<^verbatim>\<open>file.name.replace(".csv", ".xlsx")\<close>: every occurrence, from the left.\<close>

fun replace_skipping :: "nat \<Rightarrow> string \<Rightarrow> string" where
  "replace_skipping k [] = []"
| "replace_skipping k (c # cs) =
     (if 0 < k then replace_skipping (k - 1) cs
      else if take 4 (c # cs) = ''.csv'' then ''.xlsx'' @ replace_skipping 3 cs
      else c # replace_skipping 0 cs)"

definition replace_csv_xlsx :: "string \<Rightarrow> string" where
  "replace_csv_xlsx p = replace_skipping 0 p"

text \<open>Lines 89 to 98: the export of a CSV upload.\<close>

definition export_stage :: "library \<Rightarrow> inputs \<Rightarrow> uploaded_file \<Rightarrow> dataframe \<Rightarrow> unit step" where
  "export_stage lib inp file df =
     (if file_ext file = ''.csv'' then
        bind (emit [Write ''#### Convert CSV to Excel'']) (\<lambda>_.
        bind (register (Button (''Convert '' @ name file @ '' to Excel''))) (\<lambda>_.
        if st_button inp (''Convert '' @ name file @ '' to Excel'') then
          (case lib_to_excel lib df of
             Inl e \<Rightarrow> raise (ExportError e)
           | Inr excel_data \<Rightarrow>
               register (Download_button ''Download Excel File'' (replace_csv_xlsx (name file))))
        else ok ()))
      else ok ())"

text \<open>Lines 101 to 107: the optional cleaning.\<close>

definition cleaning_not_applied :: string where
  "cleaning_not_applied =
     ''Data cleaning not applied. Toggle the '' @ [CHR 0x27] @ ''Clean Data'' @ [CHR 0x27]
       @ '' checkbox in the sidebar to clean your data.''"

definition cleaning_stage :: "library \<Rightarrow> inputs \<Rightarrow> dataframe \<Rightarrow> dataframe step" where
  "cleaning_stage lib inp df =
     (if st_checkbox inp then
        (let df = basic_cleaning (lib_copy_on_write lib) df
         in bind (emit [Success ''Data cleaning applied!'', Write ''### Cleaned DataFrame'',
                        Shown df]) (\<lambda>_. ok df))
      else
        bind (emit [Info cleaning_not_applied]) (\<lambda>_. ok df))"

text \<open>Lines 110 to 115: the widget of the column selection, and the selection.\<close>

definition selection_stage :: "inputs \<Rightarrow> dataframe \<Rightarrow> dataframe step" where
  "selection_stage inp df =
     (let all_columns = columns df
      in bind (register (Multiselect ''Select columns to keep'' all_columns all_columns)) (\<lambda>_.
         let selected_columns = st_multiselect inp ''Select columns to keep'' all_columns all_columns
         in case select_columns selected_columns df of
              Inl e \<Rightarrow> raise e
            | Inr df \<Rightarrow>
                if selected_columns \<noteq> [] then
                  bind (emit [Write ''### DataFrame After Column Selection'', Shown df])
                    (\<lambda>_. ok df)
                else ok df))"

text \<open>Lines 118 to 124: the widget of the numeric conversion, and the conversion.\<close>

definition conversion_stage :: "library \<Rightarrow> inputs \<Rightarrow> dataframe \<Rightarrow> dataframe step" where
  "conversion_stage lib inp df =
     bind (register (Multiselect ''Select columns to convert to numeric'' (columns df) [])) (\<lambda>_.
     let columns_for_conversion =
           st_multiselect inp ''Select columns to convert to numeric'' (columns df) []
     in case convert_columns (lib_parse_number lib) columns_for_conversion df of
          Inl e \<Rightarrow> raise e
        | Inr df \<Rightarrow>
            if columns_for_conversion \<noteq> [] then
              bind (emit [Success ''Conversion to numeric applied!'',
                          Write ''### DataFrame After Conversion'', Shown df])
                (\<lambda>_. ok df)
            else ok df)"

text \<open>Lines 126 to 137: the preview (\<^verbatim>\<open>df.head()\<close>, five rows) and the sums.\<close>

definition head :: "dataframe \<Rightarrow> dataframe" where
  "head df = map (\<lambda>(n, s). (n, Series (dtype s) (take 5 (cells s)))) df"

definition preview_stage :: "library \<Rightarrow> dataframe \<Rightarrow> unit step" where
  "preview_stage lib df =
     bind (emit [Write ''### Preview (Head) of the DataFrame'', Shown (head df),
                 Write ''### Sum Visualization for Numeric Columns'']) (\<lambda>_.
     let numeric_columns = select_dtypes Numeric df
     in if 0 < length numeric_columns then
          emit [Bar_chart (map (\<lambda>(n, s). (n, lib_sum lib s))
                             (filter (\<lambda>(n, s). dtype s = Numeric) df))]
        else emit [Info ''No numeric columns available for sum visualization.''])"

text \<open>
  Lines 139 to 160: the date view. The select box is created only when there is a
  candidate.
\<close>

definition date_stage :: "library \<Rightarrow> inputs \<Rightarrow> dataframe \<Rightarrow> unit step" where
  "date_stage lib inp df =
     bind (emit [Write ''### Date Visualization'']) (\<lambda>_.
     let dcs = date_columns (lib_datetime_parser lib) df
     in bind (if dcs \<noteq> [] then register (Selectbox ''Select a date column for visualization'' dcs)
              else ok ()) (\<lambda>_.
        case date_visualization (lib_datetime_parser lib)
               (st_selectbox inp ''Select a date column for visualization'') df of
          Inl e \<Rightarrow> raise e
        | Inr (df, LineChart date_counts) \<Rightarrow> emit [Line_chart date_counts]
        | Inr (df, InfoBox message) \<Rightarrow> emit [Info message]))"

text \<open>Lines 84 to 160: what the loop does with a frame.\<close>

definition process_frame :: "library \<Rightarrow> inputs \<Rightarrow> uploaded_file \<Rightarrow> dataframe \<Rightarrow> unit step" where
  "process_frame lib inp file df =
     bind (emit [Write ''### Original DataFrame'', Shown df]) (\<lambda>_.
     bind (export_stage lib inp file df) (\<lambda>_.
     bind (cleaning_stage lib inp df) (\<lambda>df.
     bind (selection_stage inp df) (\<lambda>df.
     bind (conversion_stage lib inp df) (\<lambda>df.
     bind (preview_stage lib df) (\<lambda>_.
     date_stage lib inp df))))))"

text \<open>
  One pass of the loop body: the file is loaded, and only \<^verbatim>\<open>if df is not None\<close> the
  rest of the body runs on the frame.
\<close>

definition process_file :: "library \<Rightarrow> inputs \<Rightarrow> uploaded_file \<Rightarrow> unit step" where
  "process_file lib inp file =
     (case load_file (lib_read_csv lib) (lib_read_excel lib) file of
        (page, None) \<Rightarrow> emit page
      | (page, Some df) \<Rightarrow> bind (emit page) (\<lambda>_. process_frame lib inp file df))"

text \<open>
  The loop \<^verbatim>\<open>for file in uploaded_files\<close>. Nothing catches an exception of the body:
  it ends the loop and the run.
\<close>

fun process_files :: "library \<Rightarrow> inputs \<Rightarrow> uploaded_file list \<Rightarrow> unit step" where
  "process_files lib inp [] s = (Inr (), s)"
| "process_files lib inp (file # files) s =
     (case process_file lib inp file s of
        (Inl e, s') \<Rightarrow> (Inl e, s')
      | (Inr u, s') \<Rightarrow> process_files lib inp files s')"

definition run :: "library \<Rightarrow> inputs \<Rightarrow> uploaded_file list \<Rightarrow> (error + unit) \<times> session" where
  "run lib inp uploaded_files =
     (if uploaded_files \<noteq> [] then
        process_files lib inp uploaded_files \<lparr>rendered = [], registered = []\<rparr>
      else emit [Info ''Please upload a CSV or Excel file.''] \<lparr>rendered = [], registered = []\<rparr>)"

text \<open>
  Deduplication in the words of the specification: of the rows of a frame, those that
  equal no earlier row, in their order.
\<close>

definition first_occurrences :: "'a list \<Rightarrow> 'a list" where
  "first_occurrences rs =
     map ((!) rs) (filter (\<lambda>i. rs ! i \<notin> set (take i rs)) [0..<length rs])"

text \<open>
  Nothing is left to fill in a column: a text column has no missing cell; a numeric column
  has none either, unless its median is NaN (\<^verbatim>\<open>fillna(NaN)\<close> leaves the column as
  it is).
\<close>

definition filled :: "series \<Rightarrow> bool" where
  "filled s =
     (case dtype s of
        Numeric \<Rightarrow> Missing \<notin> set (cells s) \<or> median s = Missing
      | Object \<Rightarrow> Missing \<notin> set (cells s)
      | Datetime \<Rightarrow> True)"


section \<open>Example frames\<close>

text \<open>
  The scenario of the specification: five rows, one of them a duplicate, one missing
  \<^verbatim>\<open>amount\<close> and one missing \<^verbatim>\<open>name\<close>.
\<close>

definition scenario_df :: dataframe where
  "scenario_df =
     [(''id'', Series Numeric [Num (Fin 1), Num (Fin 2), Num (Fin 2), Num (Fin 3), Num (Fin 4)]),
      (''name'', Series Object [Str ''Ann'', Str ''Bob'', Str ''Bob'', Missing, Str ''Dan'']),
      (''amount'', Series Numeric [Num (Fin 10), Num (Fin 20), Num (Fin 20), Num (Fin 30), Missing]),
      (''signup_date'', Series Object [Str ''2024-01-01'', Str ''2024-01-02'',
         Str ''2024-01-02'', Str ''2024-01-03'', Str ''2024-01-04''])]"


definition retake_df :: dataframe where
  "retake_df =
     [(''student'', Series Object [Str ''Ann'', Str ''Ann'', Str ''Bob'']),
      (''score'', Series Numeric [Missing, Num (Fin 7), Num (Fin 7)])]"

text \<open>A frame with a duplicate row and no missing cell.\<close>

definition complete_df :: dataframe where
  "complete_df =
     [(''id'', Series Numeric [Num (Fin 1), Num (Fin 2), Num (Fin 2)]),
      (''name'', Series Object [Str ''Ann'', Str ''Bob'', Str ''Bob''])]"

text \<open>
  A parser for the examples: it reads the texts of a column in the form
  \<^verbatim>\<open>2024-01-0d\<close> as day \<open>d\<close>, and nothing else.
\<close>

fun january :: "cell \<Rightarrow> int option" where
  "january (Str t) =
     (if length t = 10 \<and> take 9 t = ''2024-01-0'' \<and> t ! 9 \<in> set ''123456789''
      then Some (int (of_char (t ! 9)) - 48) else None)"
| "january c = None"

definition january_parser :: datetime_parser where
  "january_parser s = Some january"

text \<open>
  Columns of ten values: six dates and four other texts; five and five; and four dates
  with six missing cells.
\<close>

definition six_of_ten :: series where
  "six_of_ten = Series Object
     [Str ''2024-01-01'', Str ''2024-01-02'', Str ''2024-01-03'', Str ''2024-01-01'',
      Str ''2024-01-02'', Str ''2024-01-03'', Str ''unknown'', Str ''tbd'', Str ''soon'', Str ''?'']"

definition five_of_ten :: series where
  "five_of_ten = Series Object
     [Str ''2024-01-01'', Str ''2024-01-02'', Str ''2024-01-03'', Str ''2024-01-01'',
      Str ''2024-01-02'', Str ''later'', Str ''unknown'', Str ''tbd'', Str ''soon'', Str ''?'']"

definition four_and_six_missing :: series where
  "four_and_six_missing = Series Object
     [Str ''2024-01-01'', Str ''2024-01-02'', Str ''2024-01-03'', Str ''2024-01-01'',
      Missing, Missing, Missing, Missing, Missing, Missing]"

definition dates_df :: dataframe where
  "dates_df =
     [(''shipped'', six_of_ten), (''returned'', five_of_ten), (''closed'', four_and_six_missing)]"

text \<open>
  A frame for the numeric conversion, and a parser for the examples that reads a
  non-empty text of decimal digits.
\<close>

definition mixed_df :: dataframe where
  "mixed_df =
     [(''qty'', Series Object [Str ''12'', Str ''abc'', Missing, Num (Fin 7)]),
      (''when'', Series Datetime [Date 86400, Missing, Date 0, Date 86400]),
      (''price'', Series Numeric [Num (Fin (5 / 2)), Missing, Num (Fin 1), Num (Fin 2)])]"

fun digits_value :: "string \<Rightarrow> nat \<Rightarrow> nat option" where
  "digits_value [] acc = Some acc"
| "digits_value (c # cs) acc =
     (if c \<in> set ''0123456789'' then digits_value cs (10 * acc + (of_char c - 48)) else None)"

definition parse_digits :: "string \<Rightarrow> number option" where
  "parse_digits t =
     (if t = [] then None else map_option (\<lambda>k. Fin (of_nat k)) (digits_value t 0))"


text \<open>
  A run for the examples. The readers know two CSV files with the same header and one
  spreadsheet; the widgets give their defaults (nothing was touched); the table library
  is the one without copy-on-write.
\<close>

definition demo_read_csv :: reader where
  "demo_read_csv data =
     (if data = ''id,name;1,Ann'' then
        Inr [(''id'', Series Numeric [Num (Fin 1)]), (''name'', Series Object [Str ''Ann''])]
      else if data = ''id,name;2,Bob'' then
        Inr [(''id'', Series Numeric [Num (Fin 2)]), (''name'', Series Object [Str ''Bob''])]
      else Inl ''No columns to parse from file'')"

definition demo_read_excel :: reader where
  "demo_read_excel data =
     (if take 2 data = ''PK'' then Inr [(''city'', Series Object [Str ''Oslo''])]
      else Inl ''File is not a zip file'')"

definition demo_sum :: "series \<Rightarrow> cell" where
  "demo_sum s =
     Num (Fin (sum_list (concat (map (\<lambda>x. case x of Fin q \<Rightarrow> [q] | _ \<Rightarrow> []) (numbers s)))))"

definition demo_library :: library where
  "demo_library =
     \<lparr>lib_read_csv = demo_read_csv, lib_read_excel = demo_read_excel,
      lib_copy_on_write = False, lib_parse_number = parse_digits,
      lib_datetime_parser = january_parser, lib_sum = demo_sum,
      lib_to_excel = (\<lambda>df. Inr ''PK'')\<rparr>"

definition demo_inputs :: inputs where
  "demo_inputs =
     \<lparr>st_checkbox = False, st_button = (\<lambda>label. False),
      st_multiselect = (\<lambda>label options preset. preset),
      st_selectbox = (\<lambda>label options. hd options)\<rparr>"

definition demo_batch :: "uploaded_file list" where
  "demo_batch =
     [\<lparr>name = ''north.csv'', content = ''id,name;1,Ann''\<rparr>,
      \<lparr>name = ''notes.txt'', content = ''hello''\<rparr>,
      \<lparr>name = ''south.csv'', content = ''id,name;2,Bob''\<rparr>,
      \<lparr>name = ''book.xlsx'', content = ''PK34''\<rparr>]"


section \<open>Properties of cleaning\<close>

lemma drop_marked_map: "drop_marked m (map f xs) = map f (drop_marked m xs)"
  unfolding drop_marked_def
  by (induction m arbitrary: xs) (auto simp: zip_Cons1 split: list.splits)

lemma drop_marked_Nil [simp]: "drop_marked [] xs = []" "drop_marked m [] = []"
  by (simp_all add: drop_marked_def)

lemma drop_marked_Cons [simp]:
  "drop_marked (d # m) (x # xs) = (if d then drop_marked m xs else x # drop_marked m xs)"
  by (simp add: drop_marked_def)

lemma set_drop_marked: "set (drop_marked m xs) \<subseteq> set xs"
  unfolding drop_marked_def by (auto dest: set_zip_rightD)

lemma length_drop_marked: "length (drop_marked m xs) \<le> length xs"
proof -
  have "length (filter (\<lambda>(d, x). \<not> d) (zip m xs)) \<le> length (zip m xs)"
    by (rule length_filter_le)
  then show ?thesis by (simp add: drop_marked_def)
qed

lemma drop_marked_nth:
  "drop_marked m xs = map ((!) xs) (drop_marked m [0..<length xs])"
proof -
  have "drop_marked m (map ((!) xs) [0..<length xs]) = map ((!) xs) (drop_marked m [0..<length xs])"
    by (rule drop_marked_map)
  then show ?thesis by (simp add: map_nth)
qed

lemma length_duplicated_mask [simp]: "length (duplicated_mask seen rs) = length rs"
  by (induction rs arbitrary: seen) auto



lemma keep_first_id:
  "distinct rs \<Longrightarrow> set rs \<inter> set seen = {} \<Longrightarrow> drop_marked (duplicated_mask seen rs) rs = rs"
  by (induction rs arbitrary: seen) auto

lemma keep_first_index:
  "drop_marked (duplicated_mask seen rs) rs =
     map ((!) rs) (filter (\<lambda>i. rs ! i \<notin> set seen \<union> set (take i rs)) [0..<length rs])"
proof (induction rs arbitrary: seen)
  case Nil
  then show ?case by simp
next
  case (Cons r rs)
  have up: "[0..<length (r # rs)] = 0 # map Suc [0..<length rs]"
    by (simp add: upt_conv_Cons map_Suc_upt del: upt_Suc)
  show ?case
    unfolding up
    by (auto simp: Cons.IH filter_map comp_def conj_ac intro!: arg_cong[where f="map ((!) rs)"] filter_cong)
qed

lemma keep_all_distinct:
  "length (drop_marked (duplicated_mask seen rs) rs) = length rs \<Longrightarrow>
     distinct rs \<and> set rs \<inter> set seen = {}"
proof (induction rs arbitrary: seen)
  case Nil
  then show ?case by simp
next
  case (Cons r rs)
  have le: "length (drop_marked (duplicated_mask (r # seen) rs) rs) \<le> length rs"
    by (rule length_drop_marked)
  show ?case
  proof (cases "r \<in> set seen")
    case True
    then show ?thesis using Cons.prems le by simp
  next
    case False
    then have "length (drop_marked (duplicated_mask (r # seen) rs) rs) = length rs"
      using Cons.prems by simp
    then have "distinct rs \<and> set rs \<inter> set (r # seen) = {}" by (rule Cons.IH)
    then show ?thesis using False by auto
  qed
qed

lemma columns_drop_duplicates [simp]: "columns (drop_duplicates df) = columns df"
  by (simp add: drop_duplicates_def columns_def Let_def case_prod_unfold comp_def)

lemma wf_length: "wf_df df \<Longrightarrow> (n, s) \<in> set df \<Longrightarrow> length (cells s) = nrows df"
  by (auto simp: wf_df_def list_all_iff)

lemma length_duplicated [simp]: "length (duplicated df) = nrows df"
  by (simp add: duplicated_def rows_of_def)

lemma drop_duplicates_index:
  assumes "wf_df df"
  shows "drop_duplicates df =
     map (\<lambda>(n, s). (n, Series (dtype s)
        (map ((!) (cells s)) (drop_marked (duplicated df) [0..<nrows df])))) df"
proof -
  have "drop_marked (duplicated df) (cells s) =
      map ((!) (cells s)) (drop_marked (duplicated df) [0..<nrows df])"
    if "(n, s) \<in> set df" for n s
    using drop_marked_nth [of "duplicated df" "cells s"] wf_length [OF assms that] by simp
  then have "(case p of (n, s) \<Rightarrow> (n, Series (dtype s) (drop_marked (duplicated df) (cells s)))) =
      (case p of (n, s) \<Rightarrow> (n, Series (dtype s)
        (map ((!) (cells s)) (drop_marked (duplicated df) [0..<nrows df]))))"
    if "p \<in> set df" for p
    using that by (cases p) simp
  then show ?thesis
    unfolding drop_duplicates_def Let_def by (intro map_cong refl)
qed

lemma map_nth_index: "map (\<lambda>j. f (ks ! j)) [0..<length ks] = map f ks"
  by (rule nth_equalityI) simp_all

lemma rows_drop_duplicates:
  assumes "wf_df df"
  shows "rows_of (drop_duplicates df) = drop_marked (duplicated df) (rows_of df)"
proof (cases df)
  case Nil
  then show ?thesis by (simp add: rows_of_def nrows_def drop_duplicates_def)
next
  case (Cons p rest)
  define ks where "ks = drop_marked (duplicated df) [0..<nrows df]"
  have dd: "drop_duplicates df =
      map (\<lambda>(n, s). (n, Series (dtype s) (map ((!) (cells s)) ks))) df"
    unfolding ks_def by (rule drop_duplicates_index [OF assms])
  have n: "nrows (drop_duplicates df) = length ks"
    unfolding dd using Cons by (simp add: nrows_def case_prod_unfold)
  have r: "row (drop_duplicates df) j = row df (ks ! j)" if "j < length ks" for j
    unfolding dd using that by (simp add: row_def case_prod_unfold comp_def)
  have "rows_of (drop_duplicates df) = map (\<lambda>j. row df (ks ! j)) [0..<length ks]"
    unfolding rows_of_def n using r by simp
  also have "\<dots> = map (row df) ks" by (rule map_nth_index)
  also have "\<dots> = drop_marked (duplicated df) (rows_of df)"
    unfolding ks_def rows_of_def by (simp add: drop_marked_map)
  finally show ?thesis .
qed

lemma fill_numeric_cols_map:
  "distinct cols \<Longrightarrow> fill_numeric_cols False cols df =
     map (\<lambda>(n, s). if n \<in> set cols then (n, fillna (median s) s) else (n, s)) df"
proof (induction cols arbitrary: df)
  case Nil
  then show ?case by simp
next
  case (Cons c cols)
  then show ?case
    by (auto simp: fill_median_inplace_def)
qed

lemma fill_object_cols_map:
  "distinct cols \<Longrightarrow> fill_object_cols False cols df =
     map (\<lambda>(n, s). if n \<in> set cols then (n, fillna (Str ''Missing'') s) else (n, s)) df"
proof (induction cols arbitrary: df)
  case Nil
  then show ?case by simp
next
  case (Cons c cols)
  then show ?case
    by (auto simp: fill_text_inplace_def)
qed

lemma fill_numeric_cols_copy: "fill_numeric_cols True cols df = df"
  by (induction cols) (simp_all add: fill_median_inplace_def)

lemma fill_object_cols_copy: "fill_object_cols True cols df = df"
  by (induction cols) (simp_all add: fill_text_inplace_def)

lemma dtype_fillna [simp]: "dtype (fillna v s) = dtype s"
  by (simp add: fillna_def)

lemma distinct_select_dtypes: "distinct (columns df) \<Longrightarrow> distinct (select_dtypes t df)"
  by (simp add: select_dtypes_def columns_def distinct_map_filter)

lemma in_select_dtypes:
  "distinct (columns df) \<Longrightarrow> (n, s) \<in> set df \<Longrightarrow>
     n \<in> set (select_dtypes t df) \<longleftrightarrow> dtype s = t"
  by (force simp: select_dtypes_def columns_def dest: eq_key_imp_eq_value)

lemma basic_cleaning_map:
  assumes "distinct (columns df)"
  shows "basic_cleaning False df = map (\<lambda>(n, s). (n, cleaned_column s)) (drop_duplicates df)"
proof -
  define d where "d = drop_duplicates df"
  have dn: "distinct (columns d)" using assms by (simp add: d_def)
  define d1 where "d1 = fill_numeric_cols False (select_dtypes Numeric d) d"
  have d1: "d1 = map (\<lambda>(n, s). (n, if dtype s = Numeric then fillna (median s) s else s)) d"
    unfolding d1_def fill_numeric_cols_map [OF distinct_select_dtypes [OF dn]]
    by (rule map_cong) (auto simp: in_select_dtypes [OF dn])
  have dn1: "distinct (columns d1)"
    using dn unfolding d1 by (simp add: columns_def case_prod_unfold comp_def)
  have "fill_object_cols False (select_dtypes Object d1) d1 =
      map (\<lambda>(n, s). (n, if dtype s = Object then fillna (Str ''Missing'') s else s)) d1"
    unfolding fill_object_cols_map [OF distinct_select_dtypes [OF dn1]]
    by (rule map_cong) (auto simp: in_select_dtypes [OF dn1])
  also have "\<dots> = map (\<lambda>(n, s). (n, cleaned_column s)) d"
    unfolding d1 by (auto simp: cleaned_column_def split: dtype.splits)
  finally show ?thesis
    by (simp add: basic_cleaning_def d_def d1_def Let_def)
qed

lemma basic_cleaning_copy: "basic_cleaning True df = drop_duplicates df"
  by (simp add: basic_cleaning_def Let_def fill_numeric_cols_copy fill_object_cols_copy)

lemma keep_first_occurrences:
  "drop_marked (duplicated_mask [] rs) rs = first_occurrences rs"
  using keep_first_index [of "[]" rs] by (simp add: first_occurrences_def)

lemma rows_first_occurrences:
  "wf_df df \<Longrightarrow> rows_of (drop_duplicates df) = first_occurrences (rows_of df)"
  by (simp add: rows_drop_duplicates duplicated_def keep_first_occurrences)



lemma nrows_drop_duplicates:
  assumes "wf_df df" "(n, s) \<in> set df"
  shows "nrows (drop_duplicates df) = length (drop_marked (duplicated df) (cells s))"
proof -
  obtain p rest where df: "df = p # rest" using assms(2) by (cases df) auto
  have "length (drop_marked (duplicated df) (cells s)) =
      length (drop_marked (duplicated df) [0..<nrows df])"
    using drop_marked_nth [of "duplicated df" "cells s"] wf_length [OF assms] by simp
  moreover have "nrows (drop_duplicates df) = length (drop_marked (duplicated df) [0..<nrows df])"
    unfolding drop_duplicates_index [OF assms(1)] using df
    by (simp add: nrows_def case_prod_unfold)
  ultimately show ?thesis by simp
qed

lemma wf_drop_duplicates:
  assumes "wf_df df"
  shows "wf_df (drop_duplicates df)"
proof -
  have names: "distinct (columns (drop_duplicates df))"
    using assms by (simp add: wf_df_def)
  have col: "length (cells t) = nrows (drop_duplicates df) \<and> wf_series t"
    if "(n, t) \<in> set (drop_duplicates df)" for n t
  proof -
    from that obtain s where s: "(n, s) \<in> set df"
      and t: "t = Series (dtype s) (drop_marked (duplicated df) (cells s))"
      by (auto simp: drop_duplicates_def Let_def)
    have "wf_series s" using assms s by (auto simp: wf_df_def list_all_iff)
    then have "wf_series t"
      using set_drop_marked [of "duplicated df" "cells s"]
      by (auto simp: wf_series_def list_all_iff t)
    then show ?thesis
      using nrows_drop_duplicates [OF assms s] by (simp add: t)
  qed
  show ?thesis
    unfolding wf_df_def list_all_iff using names col by auto
qed

lemma length_fillna [simp]: "length (cells (fillna v s)) = length (cells s)"
  by (simp add: fillna_def)

lemma length_cleaned_column [simp]: "length (cells (cleaned_column s)) = length (cells s)"
  by (simp add: cleaned_column_def split: dtype.splits)

lemma dtype_cleaned_column [simp]: "dtype (cleaned_column s) = dtype s"
  by (simp add: cleaned_column_def split: dtype.splits)

lemma nth_cleaned_column:
  "i < length (cells s) \<Longrightarrow> cells s ! i \<noteq> Missing \<Longrightarrow> cells (cleaned_column s) ! i = cells s ! i"
  by (simp add: cleaned_column_def fillna_def split: dtype.splits)

lemma fillna_no_missing: "Missing \<notin> set (cells s) \<Longrightarrow> fillna v s = s"
  by (cases s) (auto simp: fillna_def intro!: map_idI)

lemma fillna_Missing [simp]: "fillna Missing s = s"
  by (cases s) (auto simp: fillna_def intro!: map_idI)

lemma fillna_filled: "v \<noteq> Missing \<Longrightarrow> Missing \<notin> set (cells (fillna v s))"
  by (auto simp: fillna_def)

lemma float_overflow_value: "float_overflow = 2 ^ 1024 - 2 ^ 970"
  by (simp add: float_overflow_def)


lemma mean_of_two_fits: "cell_fits Numeric (mean_of_two a b)"
  by (cases a; cases b) auto


lemma median_fits: "cell_fits Numeric (median s)"
  by (simp add: median_def median_of_def Let_def mean_of_two_fits)



lemma columns_map_snd [simp]: "columns (map (\<lambda>(n, s). (n, f s)) df) = columns df"
  by (simp add: columns_def case_prod_unfold comp_def)

lemma nrows_map_snd:
  "(\<And>s. length (cells (f s)) = length (cells s)) \<Longrightarrow> nrows (map (\<lambda>(n, s). (n, f s)) df) = nrows df"
  by (cases df) (auto simp: nrows_def)

lemma columns_basic_cleaning:
  "distinct (columns df) \<Longrightarrow> columns (basic_cleaning copy_on_write df) = columns df"
  by (cases copy_on_write) (simp_all add: basic_cleaning_map basic_cleaning_copy)

lemma filled_cleaned_column: "filled (cleaned_column s)"
proof (cases "dtype s")
  case Numeric
  show ?thesis
  proof (cases "median s = Missing")
    case True
    then show ?thesis
      using Numeric by (simp add: filled_def cleaned_column_def)
  next
    case False
    then show ?thesis
      using Numeric fillna_filled [of "median s" s] by (simp add: filled_def cleaned_column_def)
  qed
next
  case Object
  then show ?thesis
    using fillna_filled [of "Str ''Missing''" s] by (simp add: filled_def cleaned_column_def)
next
  case Datetime
  then show ?thesis by (simp add: filled_def cleaned_column_def)
qed

lemma cleaned_column_filled:
  assumes "filled s"
  shows "cleaned_column s = s"
proof (cases "dtype s")
  case Numeric
  then have "Missing \<notin> set (cells s) \<or> median s = Missing"
    using assms by (simp add: filled_def)
  then show ?thesis
    using Numeric by (auto simp: cleaned_column_def fillna_no_missing)
next
  case Object
  then show ?thesis
    using assms by (simp add: filled_def cleaned_column_def fillna_no_missing)
next
  case Datetime
  then show ?thesis by (simp add: cleaned_column_def)
qed

lemma map_cleaned_filled:
  assumes "\<forall>(n, s) \<in> set df. filled s"
  shows "map (\<lambda>(n, s). (n, cleaned_column s)) df = df"
  using assms by (induction df) (auto simp: cleaned_column_filled)

lemma filled_basic_cleaning:
  assumes "distinct (columns df)"
  shows "\<forall>(n, s) \<in> set (basic_cleaning False df). filled s"
  unfolding basic_cleaning_map [OF assms] by (auto simp: filled_cleaned_column)

lemma duplicated_mask_distinct:
  "distinct rs \<Longrightarrow> set rs \<inter> set seen = {} \<Longrightarrow>
     duplicated_mask seen rs = replicate (length rs) False"
  by (induction rs arbitrary: seen) auto

lemma drop_marked_none: "length xs \<le> k \<Longrightarrow> drop_marked (replicate k False) xs = xs"
proof (induction xs arbitrary: k)
  case Nil
  then show ?case by simp
next
  case (Cons x xs)
  then obtain k' where "k = Suc k'" by (cases k) auto
  then show ?case using Cons by simp
qed

lemma drop_duplicates_distinct:
  assumes "wf_df df" "distinct (rows_of df)"
  shows "drop_duplicates df = df"
proof -
  have m: "duplicated df = replicate (nrows df) False"
    using duplicated_mask_distinct [of "rows_of df" "[]"] assms(2)
    by (simp add: duplicated_def rows_of_def)
  have "(case p of (n, s) \<Rightarrow> (n, Series (dtype s) (drop_marked (duplicated df) (cells s)))) = p"
    if "p \<in> set df" for p
  proof -
    obtain n s where p: "p = (n, s)" by (cases p)
    have "length (cells s) = nrows df" using wf_length [OF assms(1)] that p by simp
    then show ?thesis by (simp add: p m drop_marked_none)
  qed
  then show ?thesis
    unfolding drop_duplicates_def Let_def by (simp add: map_idI)
qed

lemma wf_series_cleaned_column: "wf_series s \<Longrightarrow> wf_series (cleaned_column s)"
proof (cases "dtype s")
  case Numeric
  assume "wf_series s"
  then show ?thesis
    using Numeric median_fits [of s]
    by (auto simp: wf_series_def cleaned_column_def fillna_def list_all_iff)
next
  case Object
  then show ?thesis
    by (auto simp: wf_series_def cleaned_column_def fillna_def list_all_iff)
next
  case Datetime
  assume "wf_series s"
  then show ?thesis using Datetime by (simp add: cleaned_column_def)
qed

lemma wf_map_cleaned:
  assumes "wf_df df"
  shows "wf_df (map (\<lambda>(n, s). (n, cleaned_column s)) df)"
proof -
  have "nrows (map (\<lambda>(n, s). (n, cleaned_column s)) df) = nrows df"
    by (rule nrows_map_snd) simp
  then show ?thesis
    using assms by (auto simp: wf_df_def list_all_iff wf_series_cleaned_column)
qed

lemma wf_basic_cleaning: "wf_df df \<Longrightarrow> wf_df (basic_cleaning copy_on_write df)"
  by (cases copy_on_write)
    (simp_all add: basic_cleaning_map basic_cleaning_copy wf_df_def [of df] wf_map_cleaned
      wf_drop_duplicates)


lemma rows_cleaned:
  assumes "wf_df d"
  shows "list_all2 (list_all2 (\<lambda>old new. old \<noteq> Missing \<longrightarrow> new = old))
           (rows_of d) (rows_of (map (\<lambda>(n, s). (n, cleaned_column s)) d))"
proof -
  have n: "nrows (map (\<lambda>(n, s). (n, cleaned_column s)) d) = nrows d"
    by (rule nrows_map_snd) simp
  have "list_all2 (\<lambda>old new. old \<noteq> Missing \<longrightarrow> new = old)
          (row d i) (row (map (\<lambda>(n, s). (n, cleaned_column s)) d) i)"
    if "i < nrows d" for i
    unfolding row_def list_all2_map1 list_all2_map2 list_all2_same
    using wf_length [OF assms] that
    by (auto simp: nth_cleaned_column)
  then show ?thesis
    unfolding rows_of_def n list_all2_map1 list_all2_map2 list_all2_same by simp
qed

lemma rows_unchanged:
  "list_all2 (list_all2 (\<lambda>old new. old \<noteq> Missing \<longrightarrow> new = old)) rs rs"
  by (simp add: list_all2_same)





lemma cleaning_idempotent_iff:
  assumes "wf_df df"
  shows "basic_cleaning copy_on_write (basic_cleaning copy_on_write df)
           = basic_cleaning copy_on_write df
     \<longleftrightarrow> distinct (rows_of (basic_cleaning copy_on_write df))"
proof
  define x where "x = basic_cleaning copy_on_write df"
  have wf: "wf_df x" unfolding x_def by (rule wf_basic_cleaning [OF assms])
  have dn: "distinct (columns x)" using wf by (simp add: wf_df_def)
  have n: "nrows (basic_cleaning copy_on_write x) = nrows (drop_duplicates x)"
  proof (cases copy_on_write)
    case True
    then show ?thesis by (simp add: basic_cleaning_copy)
  next
    case False
    have "nrows (map (\<lambda>(n, s). (n, cleaned_column s)) (drop_duplicates x)) =
        nrows (drop_duplicates x)"
      by (rule nrows_map_snd) simp
    then show ?thesis using False by (simp add: basic_cleaning_map [OF dn])
  qed
  {
    assume "basic_cleaning copy_on_write x = x"
    then have "nrows (drop_duplicates x) = nrows x" using n by simp
    then have "length (rows_of (drop_duplicates x)) = length (rows_of x)"
      by (simp add: rows_of_def)
    then have "length (drop_marked (duplicated_mask [] (rows_of x)) (rows_of x)) =
        length (rows_of x)"
      by (simp add: rows_drop_duplicates [OF wf] duplicated_def)
    then show "distinct (rows_of x)" using keep_all_distinct by blast
  }
  {
    assume "distinct (rows_of x)"
    then have d: "drop_duplicates x = x" by (rule drop_duplicates_distinct [OF wf])
    show "basic_cleaning copy_on_write x = x"
    proof (cases copy_on_write)
      case True
      then show ?thesis using d by (simp add: basic_cleaning_copy)
    next
      case False
      have "\<forall>(n, s) \<in> set x. filled s"
        using False filled_basic_cleaning [of df] assms by (simp add: x_def wf_df_def)
      then have "map (\<lambda>(n, s). (n, cleaned_column s)) x = x"
        by (rule map_cleaned_filled)
      then show ?thesis using False d by (simp add: basic_cleaning_map [OF dn])
    qed
  }
qed

text \<open>
  Where the fill writes through, \<open>basic_cleaning\<close> is the contract of the docstring: the
  rows are the first occurrences of the input's rows, in their order, and every column
  is filled by the rule of \<open>cleaned_column\<close>, with the median of the deduplicated column.
  With copy-on-write only the deduplication is left.
\<close>

lemma cleaning_by_mode:
  assumes "wf_df df"
  shows "rows_of (drop_duplicates df) = first_occurrences (rows_of df)"
    and "basic_cleaning False df = map (\<lambda>(n, s). (n, cleaned_column s)) (drop_duplicates df)"
    and "basic_cleaning True df = drop_duplicates df"
proof -
  have "distinct (columns df)" using assms by (simp add: wf_df_def)
  then show "basic_cleaning False df = map (\<lambda>(n, s). (n, cleaned_column s)) (drop_duplicates df)"
    by (rule basic_cleaning_map)
  show "rows_of (drop_duplicates df) = first_occurrences (rows_of df)"
    by (rule rows_first_occurrences [OF assms])
  show "basic_cleaning True df = drop_duplicates df"
    by (rule basic_cleaning_copy)
qed

text \<open>
  Claim C2 (a defect of the code). The claim is what the docstring of
  \<open>basic_cleaning\<close> says. The code does it only where the fills of lines 42 and 47
  reach the frame: with copy-on-write they fill a copy, and the frame of the scenario
  comes back deduplicated with its missing \<^verbatim>\<open>name\<close> and \<^verbatim>\<open>amount\<close>. Without
  copy-on-write the result is the one of the claim.
\<close>

theorem cleaning_scenario_by_mode:
  "basic_cleaning True scenario_df =
       [(''id'', Series Numeric [Num (Fin 1), Num (Fin 2), Num (Fin 3), Num (Fin 4)]),
        (''name'', Series Object [Str ''Ann'', Str ''Bob'', Missing, Str ''Dan'']),
        (''amount'', Series Numeric [Num (Fin 10), Num (Fin 20), Num (Fin 30), Missing]),
        (''signup_date'', Series Object [Str ''2024-01-01'', Str ''2024-01-02'',
           Str ''2024-01-03'', Str ''2024-01-04''])]
     \<and> basic_cleaning False scenario_df =
       [(''id'', Series Numeric [Num (Fin 1), Num (Fin 2), Num (Fin 3), Num (Fin 4)]),
        (''name'', Series Object [Str ''Ann'', Str ''Bob'', Str ''Missing'', Str ''Dan'']),
        (''amount'', Series Numeric [Num (Fin 10), Num (Fin 20), Num (Fin 30), Num (Fin 20)]),
        (''signup_date'', Series Object [Str ''2024-01-01'', Str ''2024-01-02'',
           Str ''2024-01-03'', Str ''2024-01-04''])]"
  by code_simp




text \<open>
  Claim C4 as stated fails where the fill writes through: on \<open>retake_df\<close> the first
  cleaning fills the missing score with the median 7, which makes the first two rows
  equal, and the second cleaning drops one of them.
\<close>

theorem cleaning_not_idempotent_counterexample:
  "wf_df retake_df
     \<and> basic_cleaning False retake_df =
         [(''student'', Series Object [Str ''Ann'', Str ''Ann'', Str ''Bob'']),
          (''score'', Series Numeric [Num (Fin 7), Num (Fin 7), Num (Fin 7)])]
     \<and> basic_cleaning False (basic_cleaning False retake_df) =
         [(''student'', Series Object [Str ''Ann'', Str ''Bob'']),
          (''score'', Series Numeric [Num (Fin 7), Num (Fin 7)])]
     \<and> basic_cleaning False (basic_cleaning False retake_df) \<noteq> basic_cleaning False retake_df"
  by code_simp

text \<open>
  Claim C4, amended. In either mode of the table library, cleaning twice equals cleaning
  once exactly when the frame cleaned once has no duplicate rows. Where the fill reaches
  the frame it can create such rows (two rows that differed only in a cell that was
  missing), and the second cleaning then drops them.
\<close>

theorem cleaning_twice_iff_no_duplicates:
  assumes "wf_df df"
  shows "basic_cleaning copy_on_write (basic_cleaning copy_on_write df)
           = basic_cleaning copy_on_write df
     \<longleftrightarrow> distinct (rows_of (basic_cleaning copy_on_write df))"
  by (rule cleaning_idempotent_iff [OF assms])

theorem cleaning_twice_iff_no_duplicates_witness:
  "wf_df scenario_df
     \<and> distinct (rows_of (basic_cleaning False scenario_df))
     \<and> basic_cleaning False (basic_cleaning False scenario_df) = basic_cleaning False scenario_df
     \<and> wf_df retake_df
     \<and> \<not> distinct (rows_of (basic_cleaning False retake_df))
     \<and> basic_cleaning False (basic_cleaning False retake_df) \<noteq> basic_cleaning False retake_df"
proof -
  have wf: "wf_df scenario_df" "wf_df retake_df" by code_simp+
  have d: "distinct (rows_of (basic_cleaning False scenario_df))"
    "\<not> distinct (rows_of (basic_cleaning False retake_df))"
    by code_simp+
  show ?thesis
    using wf d cleaning_twice_iff_no_duplicates [OF wf(1), of False]
      cleaning_twice_iff_no_duplicates [OF wf(2), of False]
    by simp
qed

text \<open>
  Claim C9. Cleaning keeps the columns, their order and their dtypes, and the rows of the
  result are the surviving rows (the first occurrences of the input's rows) with every
  cell that was not missing unchanged. This holds in either mode of the table library.
\<close>

theorem cleaning_preserves_schema_and_values:
  assumes "wf_df df"
  shows "columns (basic_cleaning copy_on_write df) = columns df
     \<and> map (\<lambda>(n, s). dtype s) (basic_cleaning copy_on_write df) = map (\<lambda>(n, s). dtype s) df
     \<and> list_all2 (list_all2 (\<lambda>old new. old = Missing \<or> new = old))
           (first_occurrences (rows_of df)) (rows_of (basic_cleaning copy_on_write df))"
proof -
  have dn: "distinct (columns df)" using assms by (simp add: wf_df_def)
  have 1: "columns (basic_cleaning copy_on_write df) = columns df"
    by (rule columns_basic_cleaning [OF dn])
  have 2: "map (\<lambda>(n, s). dtype s) (basic_cleaning copy_on_write df) = map (\<lambda>(n, s). dtype s) df"
    by (cases copy_on_write)
      (simp_all add: basic_cleaning_map [OF dn] basic_cleaning_copy drop_duplicates_def Let_def
        case_prod_unfold comp_def)
  have "list_all2 (list_all2 (\<lambda>old new. old \<noteq> Missing \<longrightarrow> new = old))
          (rows_of (drop_duplicates df)) (rows_of (basic_cleaning copy_on_write df))"
  proof (cases copy_on_write)
    case True
    then show ?thesis by (simp add: basic_cleaning_copy rows_unchanged)
  next
    case False
    then show ?thesis
      using rows_cleaned [OF wf_drop_duplicates [OF assms]]
      by (simp add: basic_cleaning_map [OF dn])
  qed
  moreover have "(\<lambda>old new. old \<noteq> Missing \<longrightarrow> new = old) = (\<lambda>old new. old = Missing \<or> new = old)"
    by auto
  ultimately have 3: "list_all2 (list_all2 (\<lambda>old new. old = Missing \<or> new = old))
           (first_occurrences (rows_of df)) (rows_of (basic_cleaning copy_on_write df))"
    using rows_first_occurrences [OF assms] by simp
  show ?thesis using 1 2 3 by blast
qed

theorem cleaning_preserves_schema_and_values_witness:
  "wf_df scenario_df
     \<and> columns (basic_cleaning False scenario_df) = columns scenario_df
     \<and> map (\<lambda>(n, s). dtype s) (basic_cleaning False scenario_df) =
         map (\<lambda>(n, s). dtype s) scenario_df
     \<and> list_all2 (list_all2 (\<lambda>old new. old = Missing \<or> new = old))
           (first_occurrences (rows_of scenario_df)) (rows_of (basic_cleaning False scenario_df))
     \<and> list_all2 (list_all2 (\<lambda>old new. old = Missing \<or> new = old))
           (first_occurrences (rows_of scenario_df)) (rows_of (basic_cleaning True scenario_df))"
proof -
  have wf: "wf_df scenario_df" by code_simp
  show ?thesis
    using wf cleaning_preserves_schema_and_values [OF wf, of False]
      cleaning_preserves_schema_and_values [OF wf, of True]
    by blast
qed

section \<open>Properties of column selection and numeric conversion\<close>

lemma getitem_distinct:
  "distinct (columns df) \<Longrightarrow> (col, s) \<in> set df \<Longrightarrow> getitem df col = Inr s"
  by (simp add: getitem_def columns_def)

lemma getitem_Inr: "getitem df col = Inr s \<Longrightarrow> (col, s) \<in> set df"
  by (auto simp: getitem_def split: option.splits dest: map_of_SomeD)

lemma getitem_Inl: "getitem df col = Inl e \<Longrightarrow> col \<notin> set (columns df)"
  by (auto simp: getitem_def columns_def map_of_eq_None_iff split: option.splits)

lemma getitem_list_subset:
  assumes "distinct (columns df)" "set cols \<subseteq> set (columns df)"
  shows "\<exists>r. getitem_list df cols = Inr r \<and> columns r = cols \<and> set r \<subseteq> set df"
  using assms(2)
proof (induction cols)
  case Nil
  then show ?case by (simp add: columns_def)
next
  case (Cons col cols)
  then obtain r where r: "getitem_list df cols = Inr r" "columns r = cols" "set r \<subseteq> set df"
    by auto
  from Cons.prems obtain s where s: "(col, s) \<in> set df"
    by (auto simp: columns_def)
  have "getitem df col = Inr s" by (rule getitem_distinct [OF assms(1) s])
  then show ?case using r s by (simp add: columns_def)
qed

lemma getitem_list_all:
  assumes "distinct (columns df)"
  shows "getitem_list df (columns df) = Inr df"
proof -
  have "getitem_list df (map fst xs) = Inr xs" if "set xs \<subseteq> set df" for xs
    using that
  proof (induction xs)
    case Nil
    then show ?case by simp
  next
    case (Cons p xs)
    obtain n s where p: "p = (n, s)" by (cases p)
    have "getitem df n = Inr s"
      using Cons.prems p by (intro getitem_distinct [OF assms]) simp
    then show ?case using Cons p by simp
  qed
  then show ?thesis by (simp add: columns_def)
qed

lemma same_columns_same_lookup:
  assumes "distinct (columns df)" "distinct (columns r)" "set r \<subseteq> set df"
    and "set (columns r) = set (columns df)"
  shows "map_of r = map_of df"
proof
  fix n
  show "map_of r n = map_of df n"
  proof (cases "map_of df n")
    case None
    then have "n \<notin> set (columns r)"
      using assms(4) by (simp add: map_of_eq_None_iff columns_def)
    then have "map_of r n = None"
      by (simp add: map_of_eq_None_iff columns_def)
    then show ?thesis using None by simp
  next
    case (Some s)
    then have "n \<in> set (columns r)"
      using assms(4) by (force simp: columns_def dest: map_of_SomeD)
    then obtain t where t: "(n, t) \<in> set r" by (auto simp: columns_def)
    then have "(n, t) \<in> set df" using assms(3) by auto
    then have "map_of df n = Some t" using assms(1) by (simp add: columns_def)
    moreover have "map_of r n = Some t" using t assms(2) by (simp add: columns_def)
    ultimately show ?thesis by simp
  qed
qed

text \<open>
  Claim C5. Selecting all current columns (the widget's default) returns the frame
  unchanged, and so does the empty selection. A non-empty selection of current columns
  gives exactly those columns, in the order requested, each as it is in the frame; when
  it names every column, in any order, the result holds the same column under every name.
\<close>

theorem column_selection:
  assumes "distinct (columns df)"
  shows "select_columns (columns df) df = Inr df
     \<and> select_columns [] df = Inr df
     \<and> (selected \<noteq> [] \<and> set selected \<subseteq> set (columns df) \<longrightarrow>
          (\<exists>r. select_columns selected df = Inr r \<and> columns r = selected \<and> set r \<subseteq> set df))
     \<and> (distinct selected \<and> set selected = set (columns df) \<longrightarrow>
          (\<exists>r. select_columns selected df = Inr r \<and> columns r = selected \<and> map_of r = map_of df))"
proof -
  have 1: "select_columns (columns df) df = Inr df"
    using getitem_list_all [OF assms] by (simp add: select_columns_def)
  have 2: "select_columns [] df = Inr df" by (simp add: select_columns_def)
  have 3: "\<exists>r. select_columns selected df = Inr r \<and> columns r = selected \<and> set r \<subseteq> set df"
    if "selected \<noteq> []" "set selected \<subseteq> set (columns df)"
    using that getitem_list_subset [OF assms that(2)] by (simp add: select_columns_def)
  have 4: "\<exists>r. select_columns selected df = Inr r \<and> columns r = selected \<and> map_of r = map_of df"
    if sel: "distinct selected" "set selected = set (columns df)"
  proof (cases "selected = []")
    case True
    then have "df = []" using sel(2) by (simp add: columns_def)
    then show ?thesis using True by (simp add: select_columns_def columns_def)
  next
    case False
    then obtain r where r: "select_columns selected df = Inr r" "columns r = selected"
        "set r \<subseteq> set df"
      using 3 sel(2) by auto
    have "map_of r = map_of df"
      using assms r sel by (intro same_columns_same_lookup) simp_all
    then show ?thesis using r by simp
  qed
  show ?thesis using 1 2 3 4 by blast
qed

text \<open>The theorem at work on an example.\<close>

theorem column_selection_witness:
  "distinct (columns scenario_df)
     \<and> select_columns (columns scenario_df) scenario_df = Inr scenario_df
     \<and> select_columns [] scenario_df = Inr scenario_df
     \<and> [''amount'', ''id''] \<noteq> [] \<and> set [''amount'', ''id''] \<subseteq> set (columns scenario_df)
     \<and> select_columns [''amount'', ''id''] scenario_df =
          Inr [(''amount'', Series Numeric [Num (Fin 10), Num (Fin 20), Num (Fin 20), Num (Fin 30), Missing]),
               (''id'', Series Numeric [Num (Fin 1), Num (Fin 2), Num (Fin 2), Num (Fin 3), Num (Fin 4)])]
     \<and> distinct [''name'', ''id''] \<and> set [''name'', ''id''] = set (columns complete_df)
     \<and> select_columns [''name'', ''id''] complete_df =
          Inr [(''name'', Series Object [Str ''Ann'', Str ''Bob'', Str ''Bob'']),
               (''id'', Series Numeric [Num (Fin 1), Num (Fin 2), Num (Fin 2)])]"
proof -
  have d: "distinct (columns scenario_df)" by code_simp
  have v: "[''amount'', ''id''] \<noteq> []" "set [''amount'', ''id''] \<subseteq> set (columns scenario_df)"
    "select_columns [''amount'', ''id''] scenario_df =
          Inr [(''amount'', Series Numeric [Num (Fin 10), Num (Fin 20), Num (Fin 20), Num (Fin 30), Missing]),
               (''id'', Series Numeric [Num (Fin 1), Num (Fin 2), Num (Fin 2), Num (Fin 3), Num (Fin 4)])]"
    "distinct [''name'', ''id'']"
    "select_columns [''name'', ''id''] complete_df =
          Inr [(''name'', Series Object [Str ''Ann'', Str ''Bob'', Str ''Bob'']),
               (''id'', Series Numeric [Num (Fin 1), Num (Fin 2), Num (Fin 2)])]"
    by code_simp+
  have w: "set [''name'', ''id''] = set (columns complete_df)"
    by (auto simp: complete_df_def columns_def)
  show ?thesis
    using d v w column_selection [OF d, of "[''amount'', ''id'']"] by simp
qed

lemma to_numeric_idem: "to_numeric parse (to_numeric parse s) = to_numeric parse s"
  by (cases "dtype s") (simp_all add: to_numeric_def)

lemma number_or_null_view_int64: "number_or_null (view_int64 c)"
  by (cases c) simp_all

lemma number_or_null_coerce_numeric: "number_or_null (coerce_numeric parse c)"
  by (cases c) (simp_all split: option.splits)

lemma number_or_null_fits: "cell_fits Numeric c \<Longrightarrow> number_or_null c"
  by (cases c) simp_all

lemma to_numeric_number_or_null:
  assumes "wf_series s"
  shows "list_all number_or_null (cells (to_numeric parse s))"
proof (cases "dtype s")
  case Numeric
  then show ?thesis
    using assms by (auto simp: to_numeric_def wf_series_def list_all_iff number_or_null_fits)
next
  case Object
  then show ?thesis
    by (simp add: to_numeric_def list_all_iff number_or_null_coerce_numeric)
next
  case Datetime
  then show ?thesis
    by (simp add: to_numeric_def list_all_iff number_or_null_view_int64)
qed

lemma length_to_numeric [simp]: "length (cells (to_numeric parse s)) = length (cells s)"
  by (cases "dtype s") (simp_all add: to_numeric_def)

lemma setitem_distinct:
  assumes "distinct (columns df)" "(col, s) \<in> set df"
  shows "setitem df col t = map (\<lambda>(n, u). (n, if n = col then t else u)) df"
proof -
  have "col \<in> set (columns df)" using assms(2) by (force simp: columns_def)
  then show ?thesis by (auto simp: setitem_def)
qed

lemma convert_loop_map:
  assumes "distinct (columns df)" "set cols \<subseteq> set (columns df)"
  shows "convert_loop parse cols df =
     Inr (map (\<lambda>(n, s). (n, if n \<in> set cols then to_numeric parse s else s)) df)"
  using assms
proof (induction cols arbitrary: df)
  case Nil
  then show ?case by simp
next
  case (Cons col cols)
  from Cons.prems obtain s where s: "(col, s) \<in> set df" by (auto simp: columns_def)
  have g: "getitem df col = Inr s" by (rule getitem_distinct [OF Cons.prems(1) s])
  define df1 where "df1 = map (\<lambda>(n, u). (n, if n = col then to_numeric parse s else u)) df"
  have df1: "setitem df col (to_numeric parse s) = df1"
    unfolding df1_def by (rule setitem_distinct [OF Cons.prems(1) s])
  have c1: "columns df1 = columns df"
    by (simp add: df1_def columns_def case_prod_unfold comp_def)
  have "convert_loop parse cols df1 =
      Inr (map (\<lambda>(n, s). (n, if n \<in> set cols then to_numeric parse s else s)) df1)"
    using Cons.prems by (intro Cons.IH) (simp_all add: c1)
  also have "map (\<lambda>(n, s). (n, if n \<in> set cols then to_numeric parse s else s)) df1 =
      map (\<lambda>(n, s). (n, if n \<in> set (col # cols) then to_numeric parse s else s)) df"
  proof -
    have "u = s" if "(col, u) \<in> set df" for u
      using that s Cons.prems(1) by (auto simp: columns_def dest: eq_key_imp_eq_value)
    then show ?thesis
      unfolding df1_def by (auto simp: to_numeric_idem)
  qed
  finally show ?case using g df1 by simp
qed

lemma convert_columns_map:
  assumes "distinct (columns df)" "set cols \<subseteq> set (columns df)"
  shows "convert_columns parse cols df =
     Inr (map (\<lambda>(n, s). (n, if n \<in> set cols then to_numeric parse s else s)) df)"
proof (cases "cols = []")
  case True
  then show ?thesis by (simp add: convert_columns_def case_prod_unfold)
next
  case False
  then show ?thesis
    using convert_loop_map [OF assms] by (simp add: convert_columns_def)
qed

text \<open>
  Claim C6. For every well-formed frame and every choice of its columns, the conversion
  returns a frame (it raises nothing) with the same columns, and every cell of a chosen
  column is a number or the null marker.
\<close>

theorem numeric_coercion_total:
  assumes "wf_df df" "set cols \<subseteq> set (columns df)"
  shows "\<exists>df'. convert_columns parse cols df = Inr df'
     \<and> columns df' = columns df
     \<and> (\<forall>col \<in> set cols. \<exists>s. getitem df' col = Inr s \<and> list_all number_or_null (cells s))"
proof -
  have dn: "distinct (columns df)" using assms(1) by (simp add: wf_df_def)
  define df' where
    "df' = map (\<lambda>(n, s). (n, if n \<in> set cols then to_numeric parse s else s)) df"
  have r: "convert_columns parse cols df = Inr df'"
    unfolding df'_def by (rule convert_columns_map [OF dn assms(2)])
  have c: "columns df' = columns df"
    by (simp add: df'_def columns_def case_prod_unfold comp_def)
  have "\<exists>s. getitem df' col = Inr s \<and> list_all number_or_null (cells s)"
    if "col \<in> set cols" for col
  proof -
    from that assms(2) obtain s where s: "(col, s) \<in> set df" by (auto simp: columns_def)
    then have "wf_series s" using assms(1) by (auto simp: wf_df_def list_all_iff)
    then have "list_all number_or_null (cells (to_numeric parse s))"
      by (rule to_numeric_number_or_null)
    moreover have "(col, to_numeric parse s) \<in> set df'"
      using s that by (force simp: df'_def)
    then have "getitem df' col = Inr (to_numeric parse s)"
      using dn c by (intro getitem_distinct) simp_all
    ultimately show ?thesis by blast
  qed
  then show ?thesis using r c by blast
qed

text \<open>The theorem at work on an example.\<close>

theorem numeric_coercion_total_witness:
  "wf_df mixed_df \<and> set [''qty'', ''when''] \<subseteq> set (columns mixed_df)
     \<and> convert_columns parse_digits [''qty'', ''when''] mixed_df =
         Inr [(''qty'', Series Numeric [Num (Fin 12), Missing, Missing, Num (Fin 7)]),
              (''when'', Series Numeric [Num (Fin 86400), Num (Fin (- (2 ^ 63))), Num (Fin 0), Num (Fin 86400)]),
              (''price'', Series Numeric [Num (Fin (5 / 2)), Missing, Num (Fin 1), Num (Fin 2)])]
     \<and> (\<exists>df'. convert_columns parse_digits [''qty'', ''when''] mixed_df = Inr df'
           \<and> columns df' = columns mixed_df
           \<and> (\<exists>s. getitem df' ''qty'' = Inr s \<and> list_all number_or_null (cells s)))"
proof -
  have wf: "wf_df mixed_df" by code_simp
  have sub: "set [''qty'', ''when''] \<subseteq> set (columns mixed_df)" by code_simp
  have v: "convert_columns parse_digits [''qty'', ''when''] mixed_df =
         Inr [(''qty'', Series Numeric [Num (Fin 12), Missing, Missing, Num (Fin 7)]),
              (''when'', Series Numeric [Num (Fin 86400), Num (Fin (- (2 ^ 63))), Num (Fin 0), Num (Fin 86400)]),
              (''price'', Series Numeric [Num (Fin (5 / 2)), Missing, Num (Fin 1), Num (Fin 2)])]"
    by code_simp
  from numeric_coercion_total [OF wf sub, of parse_digits]
  have "\<exists>df'. convert_columns parse_digits [''qty'', ''when''] mixed_df = Inr df'
           \<and> columns df' = columns mixed_df
           \<and> (\<exists>s. getitem df' ''qty'' = Inr s \<and> list_all number_or_null (cells s))"
    by auto
  then show ?thesis using wf sub v by blast
qed

text \<open>
  Claim C10. Coercing a coerced column changes nothing, and converting the same columns
  of a frame a second time gives the frame of the first conversion.
\<close>

theorem numeric_coercion_idempotent:
  assumes "distinct (columns df)" "set cols \<subseteq> set (columns df)"
  shows "to_numeric parse (to_numeric parse s) = to_numeric parse s
     \<and> (\<exists>df'. convert_columns parse cols df = Inr df'
           \<and> convert_columns parse cols df' = Inr df')"
proof -
  define df' where
    "df' = map (\<lambda>(n, s). (n, if n \<in> set cols then to_numeric parse s else s)) df"
  have c: "columns df' = columns df"
    by (simp add: df'_def columns_def case_prod_unfold comp_def)
  have 1: "convert_columns parse cols df = Inr df'"
    unfolding df'_def by (rule convert_columns_map [OF assms])
  have "convert_columns parse cols df' =
      Inr (map (\<lambda>(n, s). (n, if n \<in> set cols then to_numeric parse s else s)) df')"
    using assms by (intro convert_columns_map) (simp_all add: c)
  also have "map (\<lambda>(n, s). (n, if n \<in> set cols then to_numeric parse s else s)) df' = df'"
    unfolding df'_def by (auto simp: to_numeric_idem)
  finally show ?thesis using 1 by (simp add: to_numeric_idem)
qed

text \<open>The theorem at work on an example.\<close>

theorem numeric_coercion_idempotent_witness:
  "distinct (columns mixed_df) \<and> set [''qty''] \<subseteq> set (columns mixed_df)
     \<and> convert_columns parse_digits [''qty''] mixed_df =
         Inr [(''qty'', Series Numeric [Num (Fin 12), Missing, Missing, Num (Fin 7)]),
              (''when'', Series Datetime [Date 86400, Missing, Date 0, Date 86400]),
              (''price'', Series Numeric [Num (Fin (5 / 2)), Missing, Num (Fin 1), Num (Fin 2)])]
     \<and> convert_columns parse_digits [''qty'']
           [(''qty'', Series Numeric [Num (Fin 12), Missing, Missing, Num (Fin 7)]),
            (''when'', Series Datetime [Date 86400, Missing, Date 0, Date 86400]),
            (''price'', Series Numeric [Num (Fin (5 / 2)), Missing, Num (Fin 1), Num (Fin 2)])] =
         Inr [(''qty'', Series Numeric [Num (Fin 12), Missing, Missing, Num (Fin 7)]),
              (''when'', Series Datetime [Date 86400, Missing, Date 0, Date 86400]),
              (''price'', Series Numeric [Num (Fin (5 / 2)), Missing, Num (Fin 1), Num (Fin 2)])]"
proof -
  have d: "distinct (columns mixed_df)" by code_simp
  have sub: "set [''qty''] \<subseteq> set (columns mixed_df)" by code_simp
  have v: "convert_columns parse_digits [''qty''] mixed_df =
         Inr [(''qty'', Series Numeric [Num (Fin 12), Missing, Missing, Num (Fin 7)]),
              (''when'', Series Datetime [Date 86400, Missing, Date 0, Date 86400]),
              (''price'', Series Numeric [Num (Fin (5 / 2)), Missing, Num (Fin 1), Num (Fin 2)])]"
    by code_simp
  from numeric_coercion_idempotent [OF d sub, of parse_digits]
  obtain df' where "convert_columns parse_digits [''qty''] mixed_df = Inr df'"
    "convert_columns parse_digits [''qty''] df' = Inr df'" by blast
  then show ?thesis using d sub v by simp
qed

section \<open>Properties of the date view\<close>

lemma coerce_datetime_Missing:
  "coerce_datetime f c \<noteq> Missing \<longleftrightarrow> c \<noteq> Missing \<and> f c \<noteq> None"
  by (cases c) (auto split: option.splits)

lemma notna_sum_converted:
  "notna_sum (Series Datetime (map (coerce_datetime f) (cells s))) = parsed_count f s"
  by (simp add: notna_sum_def parsed_count_def filter_map comp_def coerce_datetime_Missing)

lemma half_rat: "(of_nat a :: rat) > of_nat b / 2 \<longleftrightarrow> 2 * a > b"
proof -
  have "(of_nat a :: rat) > of_nat b / 2 \<longleftrightarrow> (of_nat b :: rat) < of_nat (2 * a)"
    by (simp add: field_simps)
  then show ?thesis by (simp only: of_nat_less_iff)
qed

lemma detect_loop_filter:
  "detect_loop parser df cols acc = acc @ filter (qualifies parser df) cols"
proof (induction cols arbitrary: acc)
  case Nil
  then show ?case by simp
next
  case (Cons col cols)
  show ?case
  proof (cases "getitem df col")
    case (Inl e)
    then show ?thesis by (simp add: Cons.IH qualifies_def)
  next
    case (Inr s)
    show ?thesis
    proof (cases "parser s")
      case None
      then show ?thesis using Inr by (simp add: Cons.IH qualifies_def to_datetime_def)
    next
      case (Some f)
      then show ?thesis
        using Inr
        by (simp add: Cons.IH qualifies_def to_datetime_def notna_sum_converted half_rat)
    qed
  qed
qed

lemma date_columns_filter:
  "date_columns parser df = filter (qualifies parser df) (columns df)"
  by (simp add: date_columns_def detect_loop_filter)

lemma qualifies_iff:
  assumes "distinct (columns df)"
  shows "qualifies parser df col \<and> col \<in> set (columns df) \<longleftrightarrow>
     (\<exists>s f. (col, s) \<in> set df \<and> parser s = Some f \<and> 2 * parsed_count f s > length (cells s))"
proof
  assume "qualifies parser df col \<and> col \<in> set (columns df)"
  then show "\<exists>s f. (col, s) \<in> set df \<and> parser s = Some f \<and> 2 * parsed_count f s > length (cells s)"
    by (auto simp: qualifies_def split: sum.splits option.splits dest: getitem_Inr)
next
  assume "\<exists>s f. (col, s) \<in> set df \<and> parser s = Some f \<and> 2 * parsed_count f s > length (cells s)"
  then obtain s f where *: "(col, s) \<in> set df" "parser s = Some f"
      "2 * parsed_count f s > length (cells s)" by blast
  have "getitem df col = Inr s" by (rule getitem_distinct [OF assms *(1)])
  then have "qualifies parser df col" using * by (simp add: qualifies_def)
  moreover have "col \<in> set (columns df)" using *(1) by (force simp: columns_def)
  ultimately show "qualifies parser df col \<and> col \<in> set (columns df)" by simp
qed

text \<open>
  Claim C1 as stated fails: the loop compares the parsed values with half of all values
  of the column, \<^verbatim>\<open>len(converted) / 2\<close>, missing ones included. In the column
  \<open>closed\<close> all four non-missing values parse, yet four is not more than half of ten.
\<close>

theorem date_candidate_counterexample:
  "(''closed'', four_and_six_missing) \<in> set dates_df
     \<and> january_parser four_and_six_missing = Some january
     \<and> parsed_count january four_and_six_missing = 4
     \<and> non_missing_count four_and_six_missing = 4
     \<and> 2 * parsed_count january four_and_six_missing > non_missing_count four_and_six_missing
     \<and> ''closed'' \<notin> set (date_columns january_parser dates_df)"
proof -
  have "january_parser four_and_six_missing = Some january"
    by (simp add: january_parser_def)
  moreover have "(''closed'', four_and_six_missing) \<in> set dates_df"
    "parsed_count january four_and_six_missing = 4"
    "non_missing_count four_and_six_missing = 4"
    "2 * parsed_count january four_and_six_missing > non_missing_count four_and_six_missing"
    "''closed'' \<notin> set (date_columns january_parser dates_df)"
    by code_simp+
  ultimately show ?thesis by simp
qed

text \<open>
  Claim C1, amended. A column is a date candidate if and only if the parser does not raise
  on it and strictly more than half of all its values, missing ones counted in the
  total, parse as a date. The bound is strict: six of ten qualify, five of ten do not.
\<close>

theorem date_candidate_detection:
  assumes "distinct (columns df)"
  shows "col \<in> set (date_columns parser df) \<longleftrightarrow>
     (\<exists>s f. (col, s) \<in> set df \<and> parser s = Some f \<and> 2 * parsed_count f s > length (cells s))"
  using qualifies_iff [OF assms, of parser col] by (auto simp: date_columns_filter)

text \<open>The theorem at work on an example.\<close>

theorem date_candidate_detection_witness:
  "distinct (columns dates_df)
     \<and> (''shipped'', six_of_ten) \<in> set dates_df
     \<and> january_parser six_of_ten = Some january
     \<and> parsed_count january six_of_ten = 6 \<and> length (cells six_of_ten) = 10
     \<and> ''shipped'' \<in> set (date_columns january_parser dates_df)
     \<and> (''returned'', five_of_ten) \<in> set dates_df
     \<and> january_parser five_of_ten = Some january
     \<and> parsed_count january five_of_ten = 5 \<and> length (cells five_of_ten) = 10
     \<and> ''returned'' \<notin> set (date_columns january_parser dates_df)"
proof -
  have d: "distinct (columns dates_df)" by code_simp
  have p: "january_parser s = Some january" for s
    by (simp add: january_parser_def)
  have a: "(''shipped'', six_of_ten) \<in> set dates_df"
    "parsed_count january six_of_ten = 6" "length (cells six_of_ten) = 10"
    by code_simp+
  have b: "(''returned'', five_of_ten) \<in> set dates_df"
    "parsed_count january five_of_ten = 5" "length (cells five_of_ten) = 10"
    by code_simp+
  have "''shipped'' \<in> set (date_columns january_parser dates_df)"
    unfolding date_candidate_detection [OF d] using a p
    by (intro exI [of _ six_of_ten] exI [of _ january]) simp
  moreover have "''returned'' \<notin> set (date_columns january_parser dates_df)"
    by code_simp
  ultimately show ?thesis using d a b p by simp
qed

lemma timestamps_set: "set (timestamps s) = {t. Date t \<in> set (cells s)}"
  by (auto simp: timestamps_def split: cell.splits)

lemma groupby_size_keys: "map fst (groupby_size s) = sort (remdups (timestamps s))"
  by (simp add: groupby_size_def comp_def)

lemma groupby_size_ascending: "sorted_wrt (<) (map fst (groupby_size s))"
  by (simp add: groupby_size_keys strict_sorted_iff)

lemma groupby_size_key_set:
  "set (map fst (groupby_size s)) = {t. Date t \<in> set (cells s)}"
  by (simp add: groupby_size_keys timestamps_set)

lemma count_list_filter: "count_list xs x = length (filter (\<lambda>y. y = x) xs)"
  by (induction xs) auto

lemma groupby_size_counts:
  "(k, c) \<in> set (groupby_size s) \<Longrightarrow> c = length (filter (\<lambda>x. x = Date k) (cells s))"
  by (auto simp: groupby_size_def count_list_filter)

lemma wf_coerce_datetime: "cell_fits Datetime (coerce_datetime f c)"
  by (cases c) (simp_all split: option.splits)

lemma to_datetime_Inr:
  assumes "to_datetime parser s = Inr converted"
  shows "dtype converted = Datetime \<and> wf_series converted
     \<and> length (cells converted) = length (cells s)"
  using assms
  by (auto simp: to_datetime_def wf_series_def list_all_iff wf_coerce_datetime
      split: option.splits)

text \<open>
  Claim C7. When the user picks a candidate column, the date view returns the working
  frame with that column replaced by its parse (a datetime column) and every other column
  as it was, and a chart that has one entry for every date of the column, with the number
  of rows that carry it, the dates strictly ascending.
\<close>

theorem date_view:
  assumes "distinct (columns df)"
    and "sel \<in> set (date_columns parser df)"
    and "selectbox (date_columns parser df) = sel"
  shows "\<exists>s converted. getitem df sel = Inr s \<and> to_datetime parser s = Inr converted
     \<and> dtype converted = Datetime \<and> wf_series converted
     \<and> date_visualization parser selectbox df =
         Inr (map (\<lambda>(n, u). (n, if n = sel then converted else u)) df,
              LineChart (groupby_size converted))
     \<and> sorted_wrt (<) (map fst (groupby_size converted))
     \<and> set (map fst (groupby_size converted)) = {t. Date t \<in> set (cells converted)}
     \<and> (\<forall>(k, c) \<in> set (groupby_size converted).
           c = length (filter (\<lambda>x. x = Date k) (cells converted)))"
proof -
  have q: "qualifies parser df sel" using assms(2) by (simp add: date_columns_filter)
  then obtain s where s: "getitem df sel = Inr s"
    by (auto simp: qualifies_def split: sum.splits)
  with q obtain f where f: "parser s = Some f"
    by (auto simp: qualifies_def split: option.splits)
  define converted where "converted = Series Datetime (map (coerce_datetime f) (cells s))"
  have t: "to_datetime parser s = Inr converted"
    by (simp add: to_datetime_def f converted_def)
  define df' where "df' = map (\<lambda>(n, u). (n, if n = sel then converted else u)) df"
  have mem: "(sel, s) \<in> set df" by (rule getitem_Inr [OF s])
  have set': "setitem df sel converted = df'"
    unfolding df'_def by (rule setitem_distinct [OF assms(1) mem])
  have "columns df' = columns df"
    by (simp add: df'_def columns_def case_prod_unfold comp_def)
  moreover have "(sel, converted) \<in> set df'"
    using mem by (force simp: df'_def)
  ultimately have g: "getitem df' sel = Inr converted"
    using assms(1) by (intro getitem_distinct) simp_all
  have ne: "date_columns parser df \<noteq> []" using assms(2) by auto
  have v: "date_visualization parser selectbox df = Inr (df', LineChart (groupby_size converted))"
    using ne assms(3) s t set' g by (simp add: date_visualization_def Let_def)
  have c: "\<forall>(k, c) \<in> set (groupby_size converted).
           c = length (filter (\<lambda>x. x = Date k) (cells converted))"
    using groupby_size_counts by blast
  show ?thesis
    using s t to_datetime_Inr [OF t] v c groupby_size_ascending [of converted]
      groupby_size_key_set [of converted]
    unfolding df'_def by blast
qed

text \<open>The theorem at work on an example.\<close>

theorem date_view_witness:
  "distinct (columns dates_df)
     \<and> ''shipped'' \<in> set (date_columns january_parser dates_df)
     \<and> hd (date_columns january_parser dates_df) = ''shipped''
     \<and> date_visualization january_parser hd dates_df =
         Inr ([(''shipped'', Series Datetime [Date 1, Date 2, Date 3, Date 1, Date 2, Date 3,
                  Missing, Missing, Missing, Missing]),
               (''returned'', five_of_ten), (''closed'', four_and_six_missing)],
              LineChart [(1, 2), (2, 2), (3, 2)])
     \<and> (\<exists>s converted. getitem dates_df ''shipped'' = Inr s
           \<and> to_datetime january_parser s = Inr converted
           \<and> date_visualization january_parser hd dates_df =
               Inr (map (\<lambda>(n, u). (n, if n = ''shipped'' then converted else u)) dates_df,
                    LineChart (groupby_size converted)))"
proof -
  have d: "distinct (columns dates_df)" by code_simp
  have m: "''shipped'' \<in> set (date_columns january_parser dates_df)" by code_simp
  have h: "hd (date_columns january_parser dates_df) = ''shipped''" by code_simp
  have v: "date_visualization january_parser hd dates_df =
         Inr ([(''shipped'', Series Datetime [Date 1, Date 2, Date 3, Date 1, Date 2, Date 3,
                  Missing, Missing, Missing, Missing]),
               (''returned'', five_of_ten), (''closed'', four_and_six_missing)],
              LineChart [(1, 2), (2, 2), (3, 2)])"
    by code_simp
  from date_view [of dates_df "''shipped''" january_parser hd, OF d m h]
  have "\<exists>s converted. getitem dates_df ''shipped'' = Inr s
           \<and> to_datetime january_parser s = Inr converted
           \<and> date_visualization january_parser hd dates_df =
               Inr (map (\<lambda>(n, u). (n, if n = ''shipped'' then converted else u)) dates_df,
                    LineChart (groupby_size converted))"
    by blast
  then show ?thesis using d m h v by blast
qed

section \<open>Properties of the loop over the uploaded files\<close>

lemma unsupported_file:
  assumes "file_ext file \<noteq> ''.csv''" "file_ext file \<noteq> ''.xlsx''"
  shows "load_file read_csv read_excel file =
     ([Write (''**Processing file:** '' @ name file),
       Error (''Unsupported file type: '' @ file_ext file)], None)"
  using assms by (simp add: load_file_def file_ext_def Let_def)

lemma csv_parse_failure:
  assumes "file_ext file = ''.csv''" "read_csv (content file) = Inl e"
  shows "load_file read_csv read_excel file =
     ([Write (''**Processing file:** '' @ name file),
       Error (''Error reading CSV file: '' @ e)], None)"
  using assms by (simp add: load_file_def file_ext_def Let_def)

lemma excel_parse_failure:
  assumes "file_ext file = ''.xlsx''" "read_excel (content file) = Inl e"
  shows "load_file read_csv read_excel file =
     ([Write (''**Processing file:** '' @ name file),
       Error (''Error reading Excel file: '' @ e)], None)"
  using assms by (simp add: load_file_def file_ext_def Let_def)

lemma load_failure_only_reports:
  assumes "load_file (lib_read_csv lib) (lib_read_excel lib) file = (page, None)"
  shows "process_file lib inp file s = (Inr (), s\<lparr>rendered := rendered s @ page\<rparr>)"
  using assms by (simp add: process_file_def emit_def)

lemma process_files_abort:
  assumes "process_files lib inp before s = (Inr (), s1)"
    and "process_file lib inp file s1 = (Inl e, s2)"
  shows "process_files lib inp (before @ file # after) s = (Inl e, s2)"
  using assms
proof (induction before arbitrary: s)
  case Nil
  then show ?case by simp
next
  case (Cons b before)
  then show ?case
    by (auto split: prod.splits sum.splits)
qed

text \<open>
  Claim C8 (a defect of the code). A file that does not load is reported and skipped,
  and the loop goes on: that part holds (the three lemmas above). But the loop body
  creates its widgets without keys, so the widget of line 111 has the same identity for
  two frames with the same columns, and the second one raises. Nothing catches the
  exception: the run ends inside \<^verbatim>\<open>south.csv\<close>, and \<^verbatim>\<open>book.xlsx\<close>, which loads
  well on its own, is never looked at.
\<close>

theorem run_aborts_on_same_columns:
  "run demo_library demo_inputs demo_batch =
     (Inl (DuplicateWidgetID ''Select columns to keep''),
      \<lparr>rendered =
         [Write ''**Processing file:** north.csv'', Success ''CSV file loaded successfully!'',
          Write ''### Original DataFrame'',
          Shown [(''id'', Series Numeric [Num (Fin 1)]), (''name'', Series Object [Str ''Ann''])],
          Write ''#### Convert CSV to Excel'', Info cleaning_not_applied,
          Write ''### DataFrame After Column Selection'',
          Shown [(''id'', Series Numeric [Num (Fin 1)]), (''name'', Series Object [Str ''Ann''])],
          Write ''### Preview (Head) of the DataFrame'',
          Shown [(''id'', Series Numeric [Num (Fin 1)]), (''name'', Series Object [Str ''Ann''])],
          Write ''### Sum Visualization for Numeric Columns'',
          Bar_chart [(''id'', Num (Fin 1))],
          Write ''### Date Visualization'',
          Info ''No suitable date columns found for date visualization.'',
          Write ''**Processing file:** notes.txt'', Error ''Unsupported file type: .txt'',
          Write ''**Processing file:** south.csv'', Success ''CSV file loaded successfully!'',
          Write ''### Original DataFrame'',
          Shown [(''id'', Series Numeric [Num (Fin 2)]), (''name'', Series Object [Str ''Bob''])],
          Write ''#### Convert CSV to Excel'', Info cleaning_not_applied],
       registered =
         [Button ''Convert north.csv to Excel'',
          Multiselect ''Select columns to keep'' [''id'', ''name''] [''id'', ''name''],
          Multiselect ''Select columns to convert to numeric'' [''id'', ''name''] [],
          Button ''Convert south.csv to Excel'']\<rparr>)
   \<and> fst (run demo_library demo_inputs [\<lparr>name = ''book.xlsx'', content = ''PK34''\<rparr>]) = Inr ()"
  by code_simp

end
